theory Spec2Isabelle
  imports Main "HOL-Library.Char_ord" "HOL-Library.List_Lexorder"
begin

section \<open>Data model (keepsync\_notes.py, DATA MODELS)\<close>

text \<open>
  Timestamps (Python \<open>datetime\<close>) are natural numbers counting from \<open>datetime.min\<close>,
  so \<open>0\<close> is \<open>datetime.min\<close> and \<open>Optional[datetime]\<close> is \<open>nat option\<close>.
  \<open>Optional[str]\<close> is \<open>string option\<close>. A \<open>Note\<close> here is a \<open>Note\<close> object whose fields
  hold values of the types the dataclass declares for them, which is what the editor, the
  store and the sync engine build. Python does not enforce the declarations:
  \<open>Note.from_dict\<close>, on the import path, copies whatever JSON value the document holds
  into a field, and an object built that way is outside this record.
\<close>

datatype SyncStatus =
  LOCAL_ONLY | SYNCED | PENDING_PUSH | PENDING_PULL | CONFLICT | DELETED_REMOTE | ERROR

datatype NoteType = NOTE | CHECKLIST

record ChecklistItem =
  ci_text :: string
  ci_checked :: bool
  ci_id :: string

record Note =
  note_id :: string
  title :: string
  content :: string
  note_type :: NoteType
  checklist_items :: "ChecklistItem list"
  labels :: "string list"
  pinned :: bool
  archived :: bool
  trashed :: bool
  color :: string
  keep_id :: "string option"
  sync_status :: SyncStatus
  local_modified :: "nat option"
  remote_modified :: "nat option"
  content_hash :: string
  created_at :: nat
  updated_at :: nat

text \<open>
  Library functions the code calls but does not define are parameters:
  \<open>md5_hex s\<close> is \<open>hashlib.md5(s.encode()).hexdigest()\<close>, \<open>json_str s\<close> is the JSON
  string literal \<open>json.dumps\<close> writes for \<open>s\<close>, and \<open>uuid4 i\<close> is the result of the
  \<open>i\<close>-th call of \<open>str(uuid.uuid4())\<close>.
\<close>

record pylib =
  md5_hex :: "string \<Rightarrow> string"
  json_str :: "string \<Rightarrow> string"
  uuid4 :: "nat \<Rightarrow> string"

subsection \<open>Note.update\_hash\<close>

definition str_bool :: "bool \<Rightarrow> string" where
  "str_bool b = (if b then ''True'' else ''False'')"

definition json_bool :: "bool \<Rightarrow> string" where
  "json_bool b = (if b then ''true'' else ''false'')"

definition dq :: char where
  "dq = CHR 0x22"

definition json_key :: "string \<Rightarrow> string" where
  "json_key k = dq # k @ [dq] @ '': ''"

text \<open>\<open>json.dumps(item.to_dict())\<close>: the keys in the order \<open>to_dict\<close> builds them.\<close>

definition dumps_item :: "pylib \<Rightarrow> ChecklistItem \<Rightarrow> string" where
  "dumps_item L i =
     ''{'' @ json_key ''id'' @ json_str L (ci_id i) @ '', '' @
     json_key ''text'' @ json_str L (ci_text i) @ '', '' @
     json_key ''checked'' @ json_bool (ci_checked i) @ ''}''"

fun join :: "string \<Rightarrow> string list \<Rightarrow> string" where
  "join sep [] = []"
| "join sep [x] = x"
| "join sep (x # y # ys) = x @ sep @ join sep (y # ys)"

definition dumps_items :: "pylib \<Rightarrow> ChecklistItem list \<Rightarrow> string" where
  "dumps_items L xs = ''['' @ join '', '' (map (dumps_item L) xs) @ '']''"

definition hash_content :: "pylib \<Rightarrow> Note \<Rightarrow> string" where
  "hash_content L n =
     title n @ ''|'' @ content n @ ''|'' @ dumps_items L (checklist_items n) @ ''|'' @
     str_bool (pinned n) @ ''|'' @ str_bool (archived n)"

definition update_hash :: "pylib \<Rightarrow> Note \<Rightarrow> Note" where
  "update_hash L n = n\<lparr>content_hash := md5_hex L (hash_content L n)\<rparr>"

section \<open>DatabaseManager\<close>

text \<open>
  The \<open>notes\<close> table is the list of its rows in rowid order; a row holds the columns
  \<open>save_note\<close> writes, which are the fields of a \<open>Note\<close>. \<open>INSERT OR REPLACE\<close> deletes
  the row with the same primary key \<open>id\<close> and inserts the new row with a new rowid, that is,
  at the end. The \<open>except\<close> branches of the methods are reached only when the sqlite3 driver
  raises, which a table in memory does not do.
\<close>

record LogEntry =
  log_timestamp :: nat
  log_action :: string
  log_note_id :: string
  log_status :: string
  log_message :: string

datatype setting = SStr string | STime nat | SNone

record Label =
  label_id :: string
  label_name :: string
  label_color :: string
  label_keep_id :: "string option"

record DatabaseManager =
  notes_table :: "Note list"
  labels_table :: "Label list"
  sync_log :: "LogEntry list"
  settings :: "(string \<times> setting) list"

definition save_note :: "pylib \<Rightarrow> nat \<Rightarrow> DatabaseManager \<Rightarrow> Note \<Rightarrow> bool \<times> DatabaseManager" where
  "save_note L now db note =
     (let note' = update_hash L (note\<lparr>updated_at := now\<rparr>)
      in (True, db\<lparr>notes_table := filter (\<lambda>r. note_id r \<noteq> note_id note') (notes_table db) @ [note']\<rparr>))"

text \<open>
  \<open>_row_to_note\<close> rebuilds a \<open>Note\<close> from the columns; the dataclass's
  \<open>__post_init__\<close> then calls \<open>update_hash\<close>, so the object's hash is recomputed whatever
  the column held. Each stored checklist item goes through \<open>ChecklistItem.from_dict\<close>, whose
  \<open>data.get("id", str(uuid.uuid4()))\<close> evaluates its default before looking the key up: one
  uuid is drawn per stored item and dropped, the row holding the id. The second argument is
  the number of uuids drawn so far, the second component of the result that number after the
  call.
\<close>

definition row_to_note :: "pylib \<Rightarrow> nat \<Rightarrow> Note \<Rightarrow> Note \<times> nat" where
  "row_to_note L c row = (update_hash L row, c + length (checklist_items row))"

definition get_note :: "pylib \<Rightarrow> nat \<Rightarrow> DatabaseManager \<Rightarrow> string \<Rightarrow> Note option \<times> nat" where
  "get_note L c db i =
     (case find (\<lambda>r. note_id r = i) (notes_table db) of
        Some row \<Rightarrow> (let (n, c') = row_to_note L c row in (Some n, c'))
      | None \<Rightarrow> (None, c))"

definition delete_note :: "nat \<Rightarrow> DatabaseManager \<Rightarrow> string \<Rightarrow> bool \<Rightarrow> bool \<times> DatabaseManager" where
  "delete_note now db i permanent =
     (if permanent
      then (True, db\<lparr>notes_table := filter (\<lambda>r. note_id r \<noteq> i) (notes_table db)\<rparr>)
      else (True, db\<lparr>notes_table :=
              map (\<lambda>r. if note_id r = i then r\<lparr>trashed := True, updated_at := now\<rparr> else r)
                (notes_table db)\<rparr>))"

definition restore_note :: "nat \<Rightarrow> DatabaseManager \<Rightarrow> string \<Rightarrow> bool \<times> DatabaseManager" where
  "restore_note now db i =
     (True, db\<lparr>notes_table :=
        map (\<lambda>r. if note_id r = i then r\<lparr>trashed := False, updated_at := now\<rparr> else r)
          (notes_table db)\<rparr>)"

definition set_setting :: "DatabaseManager \<Rightarrow> string \<Rightarrow> setting \<Rightarrow> bool \<times> DatabaseManager" where
  "set_setting db k v =
     (True, db\<lparr>settings := filter (\<lambda>kv. fst kv \<noteq> k) (settings db) @ [(k, v)]\<rparr>)"

definition log_sync ::
  "nat \<Rightarrow> DatabaseManager \<Rightarrow> string \<Rightarrow> string \<Rightarrow> string \<Rightarrow> string \<Rightarrow> DatabaseManager" where
  "log_sync now db action nid status message =
     db\<lparr>sync_log := sync_log db @
        [\<lparr>log_timestamp = now, log_action = action, log_note_id = nid,
          log_status = status, log_message = message\<rparr>]\<rparr>"

section \<open>The Google Keep client (gkeepapi)\<close>

text \<open>
  gkeepapi is a third-party library. The engine is written against the operations it calls,
  so they are a parameter: a record of operations on a client state \<open>'k\<close>. Each may raise;
  the result is \<open>Inl message\<close> then, together with the client state at that moment. A node
  is known to the engine by the attributes it reads; an attribute assignment
  (\<open>keep_note.title = ...\<close>, \<open>keep_note.labels.add(label)\<close>) names the node by its id.
  The operations that stamp a time take the clock reading.
\<close>

record keep_note =
  k_id :: string
  k_title :: string
  k_text :: string
  k_items :: "(string \<times> bool) list"
  k_labels :: "string list"
  k_pinned :: bool
  k_archived :: bool
  k_trashed :: bool
  k_color :: "string option"
  k_updated :: nat
  k_created :: "nat option"

datatype keep_attr = Title string | Text string | Pinned bool | Archived bool | AddLabel string

type_synonym ('a, 'k) kres = "(string + 'a) \<times> 'k"

record 'k Keep =
  keep_sync :: "nat \<Rightarrow> 'k \<Rightarrow> (unit, 'k) kres"
  keep_all :: "'k \<Rightarrow> (keep_note list, 'k) kres"
  keep_get :: "string \<Rightarrow> 'k \<Rightarrow> (keep_note option, 'k) kres"
  createNote :: "nat \<Rightarrow> string \<Rightarrow> string \<Rightarrow> 'k \<Rightarrow> (keep_note, 'k) kres"
  createList :: "nat \<Rightarrow> string \<Rightarrow> (string \<times> bool) list \<Rightarrow> 'k \<Rightarrow> (keep_note, 'k) kres"
  setattr :: "nat \<Rightarrow> string \<Rightarrow> keep_attr \<Rightarrow> 'k \<Rightarrow> (unit, 'k) kres"
  findLabel :: "string \<Rightarrow> 'k \<Rightarrow> (string option, 'k) kres"
  createLabel :: "nat \<Rightarrow> string \<Rightarrow> 'k \<Rightarrow> (string, 'k) kres"

text \<open>Sequencing of client calls: the first exception ends the sequence.\<close>

definition kbind ::
  "('k \<Rightarrow> (string + 'a) \<times> 'k) \<Rightarrow> ('a \<Rightarrow> 'k \<Rightarrow> (string + 'b) \<times> 'k) \<Rightarrow> 'k \<Rightarrow> (string + 'b) \<times> 'k" where
  "kbind m f k = (case m k of (Inl e, k') \<Rightarrow> (Inl e, k') | (Inr a, k') \<Rightarrow> f a k')"

definition kreturn :: "'a \<Rightarrow> 'k \<Rightarrow> (string + 'a) \<times> 'k" where
  "kreturn a k = (Inr a, k)"

section \<open>KeepSyncEngine\<close>

datatype message = Plain string | SyncedCounts nat nat

record 'k KeepSyncEngine =
  db :: DatabaseManager
  keep :: 'k
  is_authenticated :: bool
  sync_in_progress :: bool
  last_sync :: "nat option"
  notified :: "(string \<times> message) list"
  uuid_calls :: nat

text \<open>
  \<open>notified\<close> lists the \<open>(status, message)\<close> pairs handed to the callbacks
  (\<open>_notify_callbacks\<close> swallows what a callback raises); \<open>uuid_calls\<close> counts the calls of
  \<open>uuid.uuid4()\<close> made so far.
\<close>

definition notify_callbacks :: "'k KeepSyncEngine \<Rightarrow> string \<Rightarrow> message \<Rightarrow> 'k KeepSyncEngine" where
  "notify_callbacks s status msg = s\<lparr>notified := notified s @ [(status, msg)]\<rparr>"

record pull_stats =
  pull_new :: nat
  pull_updated :: nat
  pull_skipped :: nat

record push_stats =
  push_created :: nat
  push_updated :: nat
  push_deleted :: nat
  push_errors :: nat

record sync_stats =
  pulled :: nat
  pushed :: nat
  conflicts :: nat
  errors :: nat

subsection \<open>\_keep\_note\_to\_local\<close>

text \<open>
  The \<open>Note(...)\<close> constructor leaves \<open>sync_status\<close> and \<open>local_modified\<close> at their
  defaults and ends in \<open>update_hash\<close>. Each \<open>ChecklistItem(text=..., checked=...)\<close> draws
  its id from \<open>uuid4\<close>, after the note id has been drawn.
\<close>

definition keep_note_to_local ::
  "pylib \<Rightarrow> nat \<Rightarrow> nat \<Rightarrow> keep_note \<Rightarrow> Note option \<Rightarrow> Note \<times> nat" where
  "keep_note_to_local L now c kn existing =
     (let (nid, c1) = (case existing of Some e \<Rightarrow> (note_id e, c) | None \<Rightarrow> (uuid4 L c, Suc c));
          is_list = (k_items kn \<noteq> []);
          items = (if is_list
                   then map (\<lambda>(j, (t, ch)). \<lparr>ci_text = t, ci_checked = ch, ci_id = uuid4 L j\<rparr>)
                          (enumerate c1 (k_items kn))
                   else [])
      in (update_hash L
            \<lparr>note_id = nid,
             title = k_title kn,
             content = (if is_list then [] else k_text kn),
             note_type = (if is_list then CHECKLIST else NOTE),
             checklist_items = items,
             labels = k_labels kn,
             pinned = k_pinned kn,
             archived = k_archived kn,
             trashed = k_trashed kn,
             color = (case k_color kn of Some v \<Rightarrow> v | None \<Rightarrow> []),
             keep_id = Some (k_id kn),
             sync_status = LOCAL_ONLY,
             local_modified = None,
             remote_modified = Some (k_updated kn),
             content_hash = [],
             created_at = (case existing of Some e \<Rightarrow> created_at e
                           | None \<Rightarrow> (case k_created kn of Some t \<Rightarrow> t | None \<Rightarrow> now)),
             updated_at = now\<rparr>,
          c1 + length items))"

subsection \<open>\_pull\_from\_keep\<close>

definition or_datetime_min :: "nat option \<Rightarrow> nat" where
  "or_datetime_min t = (case t of Some v \<Rightarrow> v | None \<Rightarrow> 0)"

text \<open>
  The body of the loop for one fetched note. \<open>SELECT * FROM notes WHERE keep_id = ?\<close> with
  \<open>fetchone\<close> gives the first matching row. Nothing in the body raises on a table in memory,
  so its \<open>except\<close> branch has no counterpart here.
\<close>

definition pull_one ::
  "pylib \<Rightarrow> nat \<Rightarrow> DatabaseManager \<times> nat \<times> pull_stats \<Rightarrow> keep_note
     \<Rightarrow> DatabaseManager \<times> nat \<times> pull_stats" where
  "pull_one L now acc kn =
     (let (d, c, st) = acc in
      case find (\<lambda>r. keep_id r = Some (k_id kn)) (notes_table d) of
        Some row \<Rightarrow>
          (let (local_note, c0) = row_to_note L c row in
           if k_updated kn > or_datetime_min (remote_modified local_note)
           then (let (n, c') = keep_note_to_local L now c0 kn (Some local_note)
                 in (snd (save_note L now d (n\<lparr>sync_status := SYNCED\<rparr>)), c',
                     st\<lparr>pull_updated := pull_updated st + 1\<rparr>))
           else (d, c0, st\<lparr>pull_skipped := pull_skipped st + 1\<rparr>))
      | None \<Rightarrow>
          (let (n, c') = keep_note_to_local L now c kn None
           in (snd (save_note L now d (n\<lparr>sync_status := SYNCED\<rparr>)), c',
               st\<lparr>pull_new := pull_new st + 1\<rparr>)))"

definition pull_notes ::
  "pylib \<Rightarrow> nat \<Rightarrow> DatabaseManager \<times> nat \<Rightarrow> keep_note list \<Rightarrow> DatabaseManager \<times> nat \<times> pull_stats" where
  "pull_notes L now dc kns =
     foldl (pull_one L now)
       (fst dc, snd dc, \<lparr>pull_new = 0, pull_updated = 0, pull_skipped = 0\<rparr>) kns"

text \<open>\<open>self.keep.all()\<close> is outside the loop's \<open>try\<close>: what it raises leaves the method.\<close>

definition pull_from_keep ::
  "'k Keep \<Rightarrow> pylib \<Rightarrow> nat \<Rightarrow> 'k KeepSyncEngine \<Rightarrow> (string + pull_stats) \<times> 'k KeepSyncEngine" where
  "pull_from_keep P L now s =
     (case keep_all P (keep s) of
        (Inl e, k') \<Rightarrow> (Inl e, s\<lparr>keep := k'\<rparr>)
      | (Inr kns, k') \<Rightarrow>
          (let (d, c, st) = pull_notes L now (db s, uuid_calls s) kns
           in (Inr st, s\<lparr>db := d, keep := k', uuid_calls := c\<rparr>)))"

subsection \<open>\_update\_keep\_note and \_create\_keep\_note\<close>

definition update_keep_note :: "'k Keep \<Rightarrow> nat \<Rightarrow> keep_note \<Rightarrow> Note \<Rightarrow> 'k \<Rightarrow> (unit, 'k) kres" where
  "update_keep_note P now kn local_note =
     kbind (setattr P now (k_id kn) (Title (title local_note))) (\<lambda>_.
     kbind (if note_type local_note = CHECKLIST
            then setattr P now (k_id kn) (Text [])
            else setattr P now (k_id kn) (Text (content local_note))) (\<lambda>_.
     kbind (setattr P now (k_id kn) (Pinned (pinned local_note))) (\<lambda>_.
     setattr P now (k_id kn) (Archived (archived local_note)))))"

fun add_labels :: "'k Keep \<Rightarrow> nat \<Rightarrow> string \<Rightarrow> string list \<Rightarrow> 'k \<Rightarrow> (unit, 'k) kres" where
  "add_labels P now kid [] k = (Inr (), k)"
| "add_labels P now kid (lname # rest) k =
     (case findLabel P lname k of
        (Inl e, k1) \<Rightarrow> (Inl e, k1)
      | (Inr found, k1) \<Rightarrow>
          (case (case found of Some l \<Rightarrow> (Inr l, k1) | None \<Rightarrow> createLabel P now lname k1) of
             (Inl e, k2) \<Rightarrow> (Inl e, k2)
           | (Inr l, k2) \<Rightarrow>
               (case setattr P now kid (AddLabel l) k2 of
                  (Inl e, k3) \<Rightarrow> (Inl e, k3)
                | (Inr _, k3) \<Rightarrow> add_labels P now kid rest k3)))"

definition create_keep_note :: "'k Keep \<Rightarrow> nat \<Rightarrow> Note \<Rightarrow> 'k \<Rightarrow> (keep_note, 'k) kres" where
  "create_keep_note P now local_note =
     kbind (if note_type local_note = CHECKLIST
            then createList P now (title local_note)
                   (map (\<lambda>i. (ci_text i, ci_checked i)) (checklist_items local_note))
            else createNote P now (title local_note) (content local_note)) (\<lambda>kn.
     kbind (setattr P now (k_id kn) (Pinned (pinned local_note))) (\<lambda>_.
     kbind (setattr P now (k_id kn) (Archived (archived local_note))) (\<lambda>_.
     kbind (add_labels P now (k_id kn) (labels local_note)) (\<lambda>_.
     kreturn kn))))"

subsection \<open>\_push\_to\_keep\<close>

definition needs_push :: "Note \<Rightarrow> bool" where
  "needs_push r \<longleftrightarrow> (sync_status r = PENDING_PUSH \<or> sync_status r = LOCAL_ONLY) \<and> \<not> trashed r"

text \<open>\<open>if local_note.keep_id:\<close> holds for a string that is not empty.\<close>

definition has_keep_id :: "Note \<Rightarrow> bool" where
  "has_keep_id n = (case keep_id n of Some i \<Rightarrow> i \<noteq> [] | None \<Rightarrow> False)"

text \<open>
  The \<open>try\<close> block of the loop up to the two counters: the note to save and the counters,
  or the exception.
\<close>

definition push_remote ::
  "'k Keep \<Rightarrow> nat \<Rightarrow> push_stats \<Rightarrow> Note \<Rightarrow> 'k \<Rightarrow> (Note \<times> push_stats, 'k) kres" where
  "push_remote P now st local_note =
     (if has_keep_id local_note
      then kbind (keep_get P (case keep_id local_note of Some i \<Rightarrow> i | None \<Rightarrow> [])) (\<lambda>found.
             case found of
               Some kn \<Rightarrow>
                 kbind (update_keep_note P now kn local_note) (\<lambda>_.
                 kreturn (local_note, st\<lparr>push_updated := push_updated st + 1\<rparr>))
             | None \<Rightarrow> kreturn (local_note, st))
      else kbind (create_keep_note P now local_note) (\<lambda>kn.
             kreturn (local_note\<lparr>keep_id := Some (k_id kn)\<rparr>,
                      st\<lparr>push_created := push_created st + 1\<rparr>)))"

definition push_one ::
  "'k Keep \<Rightarrow> pylib \<Rightarrow> nat \<Rightarrow> DatabaseManager \<times> 'k \<times> nat \<times> push_stats \<Rightarrow> Note
     \<Rightarrow> DatabaseManager \<times> 'k \<times> nat \<times> push_stats" where
  "push_one P L now acc row =
     (let (d, k, c, st) = acc;
          (local_note, c') = row_to_note L c row
      in case push_remote P now st local_note k of
           (Inr (n, st'), k') \<Rightarrow>
             (snd (save_note L now d (n\<lparr>sync_status := SYNCED, remote_modified := Some now\<rparr>)),
              k', c', st')
         | (Inl e, k') \<Rightarrow>
             (log_sync now d ''push'' (note_id local_note) ''error'' e, k', c',
              st\<lparr>push_errors := push_errors st + 1\<rparr>))"

text \<open>
  The rows are those \<open>cursor.fetchall()\<close> returned before the loop started; what the loop
  saves does not change the list it runs over.
\<close>

definition push_to_keep ::
  "'k Keep \<Rightarrow> pylib \<Rightarrow> nat \<Rightarrow> 'k KeepSyncEngine \<Rightarrow> push_stats \<times> 'k KeepSyncEngine" where
  "push_to_keep P L now s =
     (let rows = filter needs_push (notes_table (db s));
          (d, k, c, st) = foldl (push_one P L now)
             (db s, keep s, uuid_calls s,
              \<lparr>push_created = 0, push_updated = 0, push_deleted = 0, push_errors = 0\<rparr>)
             rows
      in (st, s\<lparr>db := d, keep := k, uuid_calls := c\<rparr>))"

subsection \<open>sync\<close>

text \<open>
  The \<open>try\<close> block: the result is the statistics dictionary as it stands when the block
  ends, tagged \<open>Inl message\<close> when an exception ended it.
\<close>

definition sync_try ::
  "'k Keep \<Rightarrow> pylib \<Rightarrow> nat \<Rightarrow> 'k KeepSyncEngine
     \<Rightarrow> (string \<times> sync_stats + sync_stats) \<times> 'k KeepSyncEngine" where
  "sync_try P L now s =
     (let stats = \<lparr>pulled = 0, pushed = 0, conflicts = 0, errors = 0\<rparr> in
      case keep_sync P now (keep s) of
        (Inl e, k1) \<Rightarrow> (Inl (e, stats), s\<lparr>keep := k1\<rparr>)
      | (Inr _, k1) \<Rightarrow>
          (case pull_from_keep P L now (s\<lparr>keep := k1\<rparr>) of
             (Inl e, s2) \<Rightarrow> (Inl (e, stats), s2)
           | (Inr pull, s2) \<Rightarrow>
               (let stats1 = stats\<lparr>pulled := pull_new pull + pull_updated pull\<rparr>;
                    (push, s3) = push_to_keep P L now s2;
                    stats2 = stats1\<lparr>pushed := push_created push + push_updated push\<rparr>
                in case keep_sync P now (keep s3) of
                     (Inl e, k4) \<Rightarrow> (Inl (e, stats2), s3\<lparr>keep := k4\<rparr>)
                   | (Inr _, k4) \<Rightarrow>
                       (let s5 = s3\<lparr>keep := k4, last_sync := Some now\<rparr>;
                            s6 = s5\<lparr>db := snd (set_setting (db s5) ''last_sync'' (STime now))\<rparr>
                        in (Inr stats2,
                            notify_callbacks s6 ''synced''
                              (SyncedCounts (pulled stats2) (pushed stats2)))))))"

text \<open>
  \<open>sync\<close> returns \<open>(success, message, stats)\<close>; the empty dictionary of the two guard
  returns is \<open>None\<close>.
\<close>

definition sync ::
  "'k Keep \<Rightarrow> pylib \<Rightarrow> nat \<Rightarrow> 'k KeepSyncEngine
     \<Rightarrow> (bool \<times> string \<times> sync_stats option) \<times> 'k KeepSyncEngine" where
  "sync P L now s =
     (if \<not> is_authenticated s then ((False, ''Not authenticated with Google Keep'', None), s)
      else if sync_in_progress s then ((False, ''Sync already in progress'', None), s)
      else
        (let s0 = notify_callbacks (s\<lparr>sync_in_progress := True\<rparr>) ''syncing''
                    (Plain ''Synchronizing...'')
         in case sync_try P L now s0 of
              (Inr stats, s1) \<Rightarrow>
                ((True, ''Sync completed successfully'', Some stats),
                 s1\<lparr>sync_in_progress := False\<rparr>)
            | (Inl (e, stats), s1) \<Rightarrow>
                (let s2 = s1\<lparr>db := log_sync now (db s1) ''sync'' [] ''error'' e\<rparr>;
                     s3 = notify_callbacks s2 ''error'' (Plain (''Sync error: '' @ e))
                 in ((False, ''Sync error: '' @ e, Some (stats\<lparr>errors := errors stats + 1\<rparr>)),
                     s3\<lparr>sync_in_progress := False\<rparr>))))"

section \<open>A client in memory\<close>

text \<open>
  A \<open>Keep\<close> that holds its nodes in a list, for running the engine on concrete inputs: node
  ids come from \<open>gen\<close>, every assignment stamps the node with the clock reading as gkeepapi's
  setters do, \<open>sync\<close> raises while \<open>offline\<close>, and creating a note raises for the titles
  \<open>rejects\<close> holds for.
\<close>

record mem_state =
  nodes :: "keep_note list"
  next_node :: nat
  label_names :: "string list"
  offline :: bool

definition assign :: "keep_attr \<Rightarrow> keep_note \<Rightarrow> keep_note" where
  "assign a n =
     (case a of Title v \<Rightarrow> n\<lparr>k_title := v\<rparr> | Text v \<Rightarrow> n\<lparr>k_text := v\<rparr>
      | Pinned v \<Rightarrow> n\<lparr>k_pinned := v\<rparr> | Archived v \<Rightarrow> n\<lparr>k_archived := v\<rparr>
      | AddLabel v \<Rightarrow> n\<lparr>k_labels := (if v \<in> set (k_labels n) then k_labels n else k_labels n @ [v])\<rparr>)"

definition mem_create ::
  "(nat \<Rightarrow> string) \<Rightarrow> (string \<Rightarrow> bool) \<Rightarrow> nat \<Rightarrow> string \<Rightarrow> string \<Rightarrow> (string \<times> bool) list
     \<Rightarrow> mem_state \<Rightarrow> (keep_note, mem_state) kres" where
  "mem_create gen rejects now t x items k =
     (if rejects t then (Inl ''rejected'', k)
      else (let n = \<lparr>k_id = gen (next_node k), k_title = t, k_text = x, k_items = items,
                     k_labels = [], k_pinned = False, k_archived = False, k_trashed = False,
                     k_color = None, k_updated = now, k_created = Some now\<rparr>
            in (Inr n, k\<lparr>nodes := nodes k @ [n], next_node := Suc (next_node k)\<rparr>)))"

definition mem_keep :: "(nat \<Rightarrow> string) \<Rightarrow> (string \<Rightarrow> bool) \<Rightarrow> mem_state Keep" where
  "mem_keep gen rejects =
     \<lparr>keep_sync = (\<lambda>now k. if offline k then (Inl ''offline'', k) else (Inr (), k)),
      keep_all = (\<lambda>k. (Inr (nodes k), k)),
      keep_get = (\<lambda>i k. (Inr (find (\<lambda>n. k_id n = i) (nodes k)), k)),
      createNote = (\<lambda>now t x. mem_create gen rejects now t x []),
      createList = (\<lambda>now t items. mem_create gen rejects now t [] items),
      setattr = (\<lambda>now i a k.
         (Inr (), k\<lparr>nodes := map (\<lambda>n. if k_id n = i then (assign a n)\<lparr>k_updated := now\<rparr> else n)
                               (nodes k)\<rparr>)),
      findLabel = (\<lambda>name k. (Inr (if name \<in> set (label_names k) then Some name else None), k)),
      createLabel = (\<lambda>now name k. (Inr name, k\<lparr>label_names := label_names k @ [name]\<rparr>))\<rparr>"

section \<open>Example stores\<close>

text \<open>
  Concrete inputs on which the theorems below are run: a library whose digest is the
  identity, whose JSON strings are the quoted text and whose uuids are \<open>u\<close>, \<open>uu\<close>, ...; a
  client that names its nodes \<open>k\<close>, \<open>kk\<close>, ...
\<close>

definition ex_lib :: pylib where
  "ex_lib = \<lparr>md5_hex = (\<lambda>s. s), json_str = (\<lambda>s. dq # s @ [dq]),
             uuid4 = (\<lambda>i. replicate (Suc i) CHR ''u'')\<rparr>"

definition ex_gen :: "nat \<Rightarrow> string" where
  "ex_gen i = replicate (Suc i) CHR ''k''"

definition ex_note ::
  "string \<Rightarrow> string \<Rightarrow> string option \<Rightarrow> SyncStatus \<Rightarrow> nat option \<Rightarrow> nat option \<Rightarrow> Note" where
  "ex_note i t k st lm rm =
     \<lparr>note_id = i, title = t, content = ''milk, eggs'', note_type = NOTE, checklist_items = [],
      labels = [''home''], pinned = False, archived = False, trashed = False, color = [],
      keep_id = k, sync_status = st, local_modified = lm, remote_modified = rm,
      content_hash = [], created_at = 1, updated_at = 5\<rparr>"

definition ex_list ::
  "string \<Rightarrow> string \<Rightarrow> string option \<Rightarrow> SyncStatus \<Rightarrow> nat option \<Rightarrow> nat option \<Rightarrow> Note" where
  "ex_list i t k st lm rm =
     (ex_note i t k st lm rm)
       \<lparr>content := [], note_type := CHECKLIST,
        checklist_items := [\<lparr>ci_text = ''milk'', ci_checked = False, ci_id = ''i1''\<rparr>,
                            \<lparr>ci_text = ''eggs'', ci_checked = True, ci_id = ''i2''\<rparr>]\<rparr>"

definition ex_remote :: "string \<Rightarrow> string \<Rightarrow> nat \<Rightarrow> keep_note" where
  "ex_remote i t upd =
     \<lparr>k_id = i, k_title = t, k_text = ''tickets'', k_items = [], k_labels = [],
      k_pinned = False, k_archived = False, k_trashed = False, k_color = None,
      k_updated = upd, k_created = Some 2\<rparr>"

definition ex_db :: "Note list \<Rightarrow> DatabaseManager" where
  "ex_db rows = \<lparr>notes_table = rows, labels_table = [], sync_log = [], settings = []\<rparr>"

definition ex_engine :: "Note list \<Rightarrow> keep_note list \<Rightarrow> bool \<Rightarrow> mem_state KeepSyncEngine" where
  "ex_engine rows remote off =
     \<lparr>db = ex_db rows,
      keep = \<lparr>nodes = remote, next_node = 0, label_names = [], offline = off\<rparr>,
      is_authenticated = True, sync_in_progress = False, last_sync = None,
      notified = [], uuid_calls = 0\<rparr>"


definition ex_reject :: "string \<Rightarrow> bool" where
  "ex_reject t = (t = ''Bad'')"

definition ex_two :: "mem_state KeepSyncEngine" where
  "ex_two = ex_engine [ex_note ''a'' ''Bad'' None LOCAL_ONLY None None,
                       ex_note ''b'' ''Good'' None PENDING_PUSH (Some 3) None] [] False"




section \<open>Store and client invariants\<close>

text \<open>
  Predicates the idempotence argument is stated with. A fetched note is \<open>covered\<close> by a
  table when some row is linked to it and knows a remote state at least as recent as the
  note's; such a note is skipped by the pull. \<open>unique_links\<close> says that no two rows are linked
  to the same remote id. \<open>stamped now i k k'\<close> relates two states of the client in memory:
  every node of \<open>k'\<close> is a node of \<open>k\<close> with an id other than \<open>i\<close>, or a node with id \<open>i\<close>
  stamped \<open>now\<close>. \<open>rejected\<close> rows are those the client in memory refuses to create.
\<close>

definition covered :: "Note list \<Rightarrow> keep_note \<Rightarrow> bool" where
  "covered T kn =
     (\<exists>row \<in> set T. keep_id row = Some (k_id kn)
        \<and> k_updated kn \<le> or_datetime_min (remote_modified row))"

definition unique_links :: "Note list \<Rightarrow> bool" where
  "unique_links T =
     (\<forall>r1 \<in> set T. \<forall>r2 \<in> set T.
        keep_id r1 = keep_id r2 \<longrightarrow> keep_id r1 = None \<or> note_id r1 = note_id r2)"

definition stamped :: "nat \<Rightarrow> string \<Rightarrow> mem_state \<Rightarrow> mem_state \<Rightarrow> bool" where
  "stamped now i k k' =
     (offline k' = offline k \<and> next_node k \<le> next_node k'
      \<and> (\<forall>n \<in> set (nodes k'). (n \<in> set (nodes k) \<and> k_id n \<noteq> i) \<or> (k_id n = i \<and> k_updated n = now)))"

definition rejected :: "(string \<Rightarrow> bool) \<Rightarrow> Note \<Rightarrow> bool" where
  "rejected rejects r = (\<not> has_keep_id r \<and> rejects (title r))"

text \<open>
  \<open>uuid_fresh L T c\<close>: from the \<open>c\<close>-th draw on, \<open>uuid4\<close> repeats no value and gives no id of
  a row of \<open>T\<close>. \<open>gen_fresh gen T k\<close>: from the next node on, the client's ids repeat no
  value, are not empty, and are the id of no node and the remote id of no row.
\<close>

definition uuid_fresh :: "pylib \<Rightarrow> Note list \<Rightarrow> nat \<Rightarrow> bool" where
  "uuid_fresh L T c =
     ((\<forall>i \<ge> c. \<forall>j > i. uuid4 L i \<noteq> uuid4 L j)
      \<and> (\<forall>r \<in> set T. \<forall>j \<ge> c. note_id r \<noteq> uuid4 L j))"

definition gen_fresh :: "(nat \<Rightarrow> string) \<Rightarrow> Note list \<Rightarrow> mem_state \<Rightarrow> bool" where
  "gen_fresh gen T k =
     ((\<forall>i \<ge> next_node k. \<forall>j > i. gen i \<noteq> gen j)
      \<and> (\<forall>j \<ge> next_node k. gen j \<noteq> []
            \<and> (\<forall>n \<in> set (nodes k). k_id n \<noteq> gen j)
            \<and> (\<forall>r \<in> set T. keep_id r \<noteq> Some (gen j))))"

text \<open>The invariants of the two loops of a cycle run against the client in memory.\<close>

definition pull_inv ::
  "pylib \<Rightarrow> (nat \<Rightarrow> string) \<Rightarrow> mem_state \<Rightarrow> Note list \<Rightarrow> nat \<Rightarrow> keep_note list \<Rightarrow> bool" where
  "pull_inv L gen k T c seen =
     (distinct (map note_id T) \<and> unique_links T \<and> uuid_fresh L T c \<and> gen_fresh gen T k
      \<and> (\<forall>kn \<in> set seen. covered T kn))"

definition push_inv ::
  "(nat \<Rightarrow> string) \<Rightarrow> (string \<Rightarrow> bool) \<Rightarrow> Note list \<Rightarrow> mem_state \<Rightarrow> Note list \<Rightarrow> bool" where
  "push_inv gen rejects T k rows =
     (distinct (map note_id T) \<and> unique_links T \<and> set rows \<subseteq> set T
      \<and> distinct (map note_id rows)
      \<and> (\<forall>r \<in> set T. needs_push r \<longrightarrow> r \<in> set rows \<or> rejected rejects r)
      \<and> (\<forall>n \<in> set (nodes k). covered T n \<and> k_id n \<noteq> [])
      \<and> gen_fresh gen T k)"
section \<open>Note store: hashing and missing ids\<close>

lemma filter_other_id:
  "\<forall>r \<in> set rs. note_id r \<noteq> i \<Longrightarrow> filter (\<lambda>r. note_id r \<noteq> i) rs = rs"
  by (induction rs) auto

lemma map_other_id:
  "\<forall>r \<in> set rs. note_id r \<noteq> i \<Longrightarrow> map (\<lambda>r. if note_id r = i then f r else r) rs = rs"
  by (induction rs) auto


lemma join_concat: "join sep (x # xs) = x @ concat (map (\<lambda>y. sep @ y) xs)"
  by (induction xs arbitrary: x) simp_all

lemma dumps_items_explicit:
  "dumps_items L xs =
     (case xs of [] \<Rightarrow> ''[]''
      | i # is \<Rightarrow> ''['' @ dumps_item L i @ concat (map (\<lambda>j. '', '' @ dumps_item L j) is) @ '']'')"
  by (cases xs) (simp_all add: dumps_items_def join_concat comp_def)

lemma hash_content_frame [simp]:
  "hash_content L (n\<lparr>updated_at := t\<rparr>) = hash_content L n"
  "hash_content L (n\<lparr>content_hash := h\<rparr>) = hash_content L n"
  by (simp_all add: hash_content_def)

text \<open>
  C8. \<open>save_note\<close> answers \<open>True\<close> and replaces the row under the note's id by the note
  with \<open>updated_at\<close> set to the clock reading and \<open>content_hash\<close> set to the MD5 digest of
  the text \<open>title|content|items|pinned|archived\<close>, written out below: \<open>items\<close> is the JSON
  list of the checklist items, each an object with its id, text and checked flag, and the two
  flags are printed \<open>True\<close> or \<open>False\<close>. No other field of the note and nothing of the store
  enters the digest, and the fields it is taken of are those of the stored row. Reading the
  stored row back recomputes the hash and gives the row itself. This is a statement about
  notes whose fields have their declared types.
\<close>

theorem save_note_recomputes_hash:
  "save_note L now d n =
     (True,
      d\<lparr>notes_table := filter (\<lambda>r. note_id r \<noteq> note_id n) (notes_table d) @
         [n\<lparr>updated_at := now,
            content_hash := md5_hex L
              (title n @ ''|'' @ content n @ ''|'' @
               (let item = (\<lambda>i. ''{'' @ [CHR 0x22] @ ''id'' @ [CHR 0x22] @ '': '' @ json_str L (ci_id i)
                                   @ '', '' @ [CHR 0x22] @ ''text'' @ [CHR 0x22] @ '': '' @ json_str L (ci_text i)
                                   @ '', '' @ [CHR 0x22] @ ''checked'' @ [CHR 0x22] @ '': ''
                                   @ (if ci_checked i then ''true'' else ''false'') @ ''}'')
                in case checklist_items n of
                     [] \<Rightarrow> ''[]''
                   | i # is \<Rightarrow> ''['' @ item i @ concat (map (\<lambda>j. '', '' @ item j) is) @ '']'')
               @ ''|'' @ (if pinned n then ''True'' else ''False'')
               @ ''|'' @ (if archived n then ''True'' else ''False''))\<rparr>]\<rparr>)
   \<and> row_to_note L c (last (notes_table (snd (save_note L now d n))))
       = (last (notes_table (snd (save_note L now d n))), c + length (checklist_items n))"
proof -
  have item: "dumps_item L i =
      ''{'' @ [CHR 0x22] @ ''id'' @ [CHR 0x22] @ '': '' @ json_str L (ci_id i)
        @ '', '' @ [CHR 0x22] @ ''text'' @ [CHR 0x22] @ '': '' @ json_str L (ci_text i)
        @ '', '' @ [CHR 0x22] @ ''checked'' @ [CHR 0x22] @ '': ''
        @ (if ci_checked i then ''true'' else ''false'') @ ''}''" for i
    by (simp add: dumps_item_def json_key_def json_bool_def dq_def)
  have hashed: "hash_content L n =
      title n @ ''|'' @ content n @ ''|'' @
      (case checklist_items n of
         [] \<Rightarrow> ''[]''
       | i # is \<Rightarrow> ''['' @ dumps_item L i @ concat (map (\<lambda>j. '', '' @ dumps_item L j) is) @ '']'')
      @ ''|'' @ (if pinned n then ''True'' else ''False'')
      @ ''|'' @ (if archived n then ''True'' else ''False'')"
    unfolding hash_content_def dumps_items_explicit by (simp add: str_bool_def)
  have stored: "save_note L now d n =
      (True, d\<lparr>notes_table := filter (\<lambda>r. note_id r \<noteq> note_id n) (notes_table d) @
          [n\<lparr>updated_at := now, content_hash := md5_hex L (hash_content L n)\<rparr>]\<rparr>)"
    by (simp add: save_note_def update_hash_def Let_def)
  have reread: "row_to_note L c (last (notes_table (snd (save_note L now d n))))
       = (last (notes_table (snd (save_note L now d n))), c + length (checklist_items n))"
    unfolding stored by (simp add: row_to_note_def update_hash_def)
  show ?thesis
    using reread unfolding stored hashed item Let_def by simp
qed

theorem save_note_recomputes_hash_witness:
  "map content_hash (notes_table (snd (save_note ex_lib 7 (ex_db [])
      ((ex_note ''a'' ''Trip'' None LOCAL_ONLY None None)\<lparr>pinned := True\<rparr>))))
     = [''Trip|milk, eggs|[]|True|False'']
   \<and> map updated_at (notes_table (snd (save_note ex_lib 7 (ex_db [])
      ((ex_note ''a'' ''Trip'' None LOCAL_ONLY None None)\<lparr>pinned := True\<rparr>)))) = [7]"
  using save_note_recomputes_hash
    [of ex_lib 7 "ex_db []" "(ex_note ''a'' ''Trip'' None LOCAL_ONLY None None)\<lparr>pinned := True\<rparr>" 0]
  by (simp add: ex_note_def ex_db_def ex_lib_def)

text \<open>
  C10. For an id that no row of the store carries, \<open>delete_note\<close> (soft or permanent) and
  \<open>restore_note\<close> both answer \<open>True\<close> and leave the store as it was; \<open>get_note\<close> answers
  \<open>None\<close> for that id and draws no uuid.
\<close>

theorem missing_id_is_success:
  assumes "\<forall>r \<in> set (notes_table d). note_id r \<noteq> i"
  shows "delete_note now d i permanent = (True, d) \<and> restore_note now d i = (True, d)
         \<and> get_note L c d i = (None, c)"
proof -
  have "find (\<lambda>r. note_id r = i) (notes_table d) = None"
    using assms by (simp add: find_None_iff)
  then show ?thesis
    using assms by (simp add: delete_note_def restore_note_def get_note_def filter_other_id map_other_id)
qed

theorem missing_id_is_success_witness:
  "map note_id (notes_table (ex_db [ex_note ''a'' ''Trip'' None LOCAL_ONLY None None])) = [''a'']
   \<and> delete_note 9 (ex_db [ex_note ''a'' ''Trip'' None LOCAL_ONLY None None]) ''zz'' True
       = (True, ex_db [ex_note ''a'' ''Trip'' None LOCAL_ONLY None None])
   \<and> restore_note 9 (ex_db [ex_note ''a'' ''Trip'' None LOCAL_ONLY None None]) ''zz''
       = (True, ex_db [ex_note ''a'' ''Trip'' None LOCAL_ONLY None None])"
proof -
  have m: "map note_id (notes_table (ex_db [ex_note ''a'' ''Trip'' None LOCAL_ONLY None None]))
             = [''a'']"
    by (simp add: ex_db_def ex_note_def)
  have h: "\<forall>r \<in> set (notes_table (ex_db [ex_note ''a'' ''Trip'' None LOCAL_ONLY None None])).
      note_id r \<noteq> ''zz''"
    by (simp add: ex_db_def ex_note_def)
  show ?thesis
    using m missing_id_is_success [OF h, of 9 True ex_lib 0] by blast
qed

section \<open>The sync cycle: guard and release\<close>

text \<open>
  C6. Called while not authenticated, or while a cycle is in progress, \<open>sync\<close> answers
  failure with the empty statistics and leaves the whole engine state, the notes included,
  as it was. Called with the in-progress flag down, it returns with the flag down, whether
  the cycle completed or an exception of the client ended it.
\<close>

theorem sync_guard:
  "(\<not> is_authenticated s \<or> sync_in_progress s \<longrightarrow>
      fst (fst (sync P L now s)) = False \<and> snd (snd (fst (sync P L now s))) = None
      \<and> snd (sync P L now s) = s)
   \<and> (\<not> sync_in_progress s \<longrightarrow> \<not> sync_in_progress (snd (sync P L now s)))"
proof -
  have guard: "fst (fst (sync P L now s)) = False \<and> snd (snd (fst (sync P L now s))) = None
      \<and> snd (sync P L now s) = s" if "\<not> is_authenticated s \<or> sync_in_progress s"
    using that by (auto simp: sync_def)
  have released: "\<not> sync_in_progress (snd (sync P L now s))" if "\<not> sync_in_progress s"
    using that by (simp add: sync_def Let_def split: prod.splits sum.splits)
  show ?thesis
    using guard released by blast
qed

theorem sync_guard_witness:
  "snd (sync (mem_keep ex_gen (\<lambda>t. False)) ex_lib 40
          ((ex_engine [] [] False)\<lparr>sync_in_progress := True\<rparr>))
     = (ex_engine [] [] False)\<lparr>sync_in_progress := True\<rparr>
   \<and> \<not> sync_in_progress (snd (sync (mem_keep ex_gen (\<lambda>t. False)) ex_lib 40 (ex_engine [] [] True)))
   \<and> fst (fst (sync (mem_keep ex_gen (\<lambda>t. False)) ex_lib 40 (ex_engine [] [] True))) = False"
proof -
  have a: "sync_in_progress ((ex_engine [] [] False)\<lparr>sync_in_progress := True\<rparr>)"
    by simp
  have b: "\<not> sync_in_progress (ex_engine [] [] True)"
    by (simp add: ex_engine_def)
  have c: "fst (fst (sync (mem_keep ex_gen (\<lambda>t. False)) ex_lib 40 (ex_engine [] [] True))) = False"
    by (simp add: sync_def sync_try_def mem_keep_def ex_engine_def notify_callbacks_def Let_def)
  show ?thesis
    using a b c
      sync_guard [of "(ex_engine [] [] False)\<lparr>sync_in_progress := True\<rparr>"
                     "mem_keep ex_gen (\<lambda>t. False)" ex_lib 40]
      sync_guard [of "ex_engine [] [] True" "mem_keep ex_gen (\<lambda>t. False)" ex_lib 40]
    by blast
qed

section \<open>The pull phase: what one fetched note changes\<close>


lemma update_hash_fields [simp]:
  "note_id (update_hash L n) = note_id n" "title (update_hash L n) = title n"
  "content (update_hash L n) = content n" "note_type (update_hash L n) = note_type n"
  "checklist_items (update_hash L n) = checklist_items n" "labels (update_hash L n) = labels n"
  "pinned (update_hash L n) = pinned n" "archived (update_hash L n) = archived n"
  "trashed (update_hash L n) = trashed n" "color (update_hash L n) = color n"
  "keep_id (update_hash L n) = keep_id n" "sync_status (update_hash L n) = sync_status n"
  "local_modified (update_hash L n) = local_modified n"
  "remote_modified (update_hash L n) = remote_modified n"
  "created_at (update_hash L n) = created_at n" "updated_at (update_hash L n) = updated_at n"
  by (simp_all add: update_hash_def)

lemma save_note_table:
  "notes_table (snd (save_note L now d n))
     = filter (\<lambda>r. note_id r \<noteq> note_id n) (notes_table d) @ [update_hash L (n\<lparr>updated_at := now\<rparr>)]"
  by (simp add: save_note_def Let_def)

lemma save_note_rest:
  "labels_table (snd (save_note L now d n)) = labels_table d"
  "sync_log (snd (save_note L now d n)) = sync_log d"
  "settings (snd (save_note L now d n)) = settings d"
  by (simp_all add: save_note_def Let_def)

lemma distinct_filter_append_id:
  "distinct (map note_id rs) \<Longrightarrow> note_id n = i
   \<Longrightarrow> distinct (map note_id (filter (\<lambda>r. note_id r \<noteq> i) rs @ [n]))"
  by (induction rs) auto

lemma find_append_not: "\<not> P y \<Longrightarrow> find P (xs @ [y]) = find P xs"
  by (induction xs) auto

lemma find_filter_keep:
  "\<forall>x \<in> set xs. P x \<longrightarrow> Q x \<Longrightarrow> find P (filter Q xs) = find P xs"
  by (induction xs) auto

lemma find_filter_none_append:
  "\<forall>x \<in> set xs. P x \<longrightarrow> \<not> Q x \<Longrightarrow> P y \<Longrightarrow> find P (filter Q xs @ [y]) = Some y"
  by (induction xs) auto

lemma find_Some_mem: "find P xs = Some x \<Longrightarrow> x \<in> set xs \<and> P x"
  by (induction xs) (auto split: if_splits)



lemma k2l_fields:
  "note_id (fst (keep_note_to_local L now c kn ex)) = (case ex of Some e \<Rightarrow> note_id e | None \<Rightarrow> uuid4 L c)"
  "keep_id (fst (keep_note_to_local L now c kn ex)) = Some (k_id kn)"
  "remote_modified (fst (keep_note_to_local L now c kn ex)) = Some (k_updated kn)"
  "local_modified (fst (keep_note_to_local L now c kn ex)) = None"
  "title (fst (keep_note_to_local L now c kn ex)) = k_title kn"
  "content (fst (keep_note_to_local L now c kn ex)) = (if k_items kn \<noteq> [] then [] else k_text kn)"
  "labels (fst (keep_note_to_local L now c kn ex)) = k_labels kn"
  "pinned (fst (keep_note_to_local L now c kn ex)) = k_pinned kn"
  "archived (fst (keep_note_to_local L now c kn ex)) = k_archived kn"
  "trashed (fst (keep_note_to_local L now c kn ex)) = k_trashed kn"
  "created_at (fst (keep_note_to_local L now c kn ex))
     = (case ex of Some e \<Rightarrow> created_at e
        | None \<Rightarrow> (case k_created kn of Some t \<Rightarrow> t | None \<Rightarrow> now))"
  by (simp_all add: keep_note_to_local_def Let_def split: option.splits prod.splits)


lemma k2l_counter: "c \<le> snd (keep_note_to_local L now c kn ex)"
  by (simp add: keep_note_to_local_def Let_def split: option.splits prod.splits)

lemma pull_one_skip:
  assumes "find (\<lambda>r. keep_id r = Some (k_id kn)) (notes_table d) = Some row"
    and "\<not> k_updated kn > or_datetime_min (remote_modified row)"
  shows "pull_one L now (d, c, st) kn
           = (d, c + length (checklist_items row), st\<lparr>pull_skipped := pull_skipped st + 1\<rparr>)"
  using assms by (simp add: pull_one_def row_to_note_def)

lemma pull_one_update:
  assumes "find (\<lambda>r. keep_id r = Some (k_id kn)) (notes_table d) = Some row"
    and "k_updated kn > or_datetime_min (remote_modified row)"
  shows "pull_one L now (d, c, st) kn =
     (snd (save_note L now d
        ((fst (keep_note_to_local L now (c + length (checklist_items row)) kn
                 (Some (update_hash L row))))\<lparr>sync_status := SYNCED\<rparr>)),
      snd (keep_note_to_local L now (c + length (checklist_items row)) kn (Some (update_hash L row))),
      st\<lparr>pull_updated := pull_updated st + 1\<rparr>)"
  using assms by (simp add: pull_one_def row_to_note_def split: prod.splits)

lemma pull_one_new:
  assumes "find (\<lambda>r. keep_id r = Some (k_id kn)) (notes_table d) = None"
  shows "pull_one L now (d, c, st) kn =
     (snd (save_note L now d ((fst (keep_note_to_local L now c kn None))\<lparr>sync_status := SYNCED\<rparr>)),
      snd (keep_note_to_local L now c kn None),
      st\<lparr>pull_new := pull_new st + 1\<rparr>)"
  using assms by (simp add: pull_one_def split: prod.splits)


lemma pull_one_table:
  assumes "pull_one L now (d, c, st) kn = (d', c', st')"
  shows "(notes_table d' = notes_table d \<and> c \<le> c' \<and>
          (\<exists>row. find (\<lambda>r. keep_id r = Some (k_id kn)) (notes_table d) = Some row
             \<and> \<not> k_updated kn > or_datetime_min (remote_modified row)))
       \<or> (\<exists>n'. notes_table d' = filter (\<lambda>r. note_id r \<noteq> note_id n') (notes_table d) @ [n']
             \<and> keep_id n' = Some (k_id kn) \<and> sync_status n' = SYNCED
             \<and> remote_modified n' = Some (k_updated kn) \<and> c \<le> c'
             \<and> (case find (\<lambda>r. keep_id r = Some (k_id kn)) (notes_table d) of
                   Some row \<Rightarrow> note_id n' = note_id row
                     \<and> k_updated kn > or_datetime_min (remote_modified row)
                 | None \<Rightarrow> note_id n' = uuid4 L c))"
proof (cases "find (\<lambda>r. keep_id r = Some (k_id kn)) (notes_table d)")
  case None
  let ?n = "(fst (keep_note_to_local L now c kn None))\<lparr>sync_status := SYNCED\<rparr>"
  have "d' = snd (save_note L now d ?n)" and c': "c' = snd (keep_note_to_local L now c kn None)"
    using assms pull_one_new [OF None, of L now c st] by simp_all
  then have "notes_table d' = filter (\<lambda>r. note_id r \<noteq> note_id ?n) (notes_table d)
          @ [update_hash L (?n\<lparr>updated_at := now\<rparr>)]"
    by (simp add: save_note_table)
  with c' show ?thesis
    using None k2l_counter [of c L now kn None]
    by (intro disjI2 exI [of _ "update_hash L (?n\<lparr>updated_at := now\<rparr>)"]) (simp add: k2l_fields)
next
  case (Some row)
  show ?thesis
  proof (cases "k_updated kn > or_datetime_min (remote_modified row)")
    case False
    then show ?thesis
      using assms Some pull_one_skip [OF Some False, of L now c st] by simp
  next
    case True
    let ?c = "c + length (checklist_items row)"
    let ?n = "(fst (keep_note_to_local L now ?c kn (Some (update_hash L row))))\<lparr>sync_status := SYNCED\<rparr>"
    have "d' = snd (save_note L now d ?n)"
      and c': "c' = snd (keep_note_to_local L now ?c kn (Some (update_hash L row)))"
      using assms pull_one_update [OF Some True, of L now c st] by simp_all
    then have "notes_table d' = filter (\<lambda>r. note_id r \<noteq> note_id ?n) (notes_table d)
            @ [update_hash L (?n\<lparr>updated_at := now\<rparr>)]"
      by (simp add: save_note_table)
    with c' show ?thesis
      using Some True k2l_counter [of ?c L now kn "Some (update_hash L row)"]
      by (intro disjI2 exI [of _ "update_hash L (?n\<lparr>updated_at := now\<rparr>)"])
         (simp add: k2l_fields)
  qed
qed

lemma pull_one_rest:
  assumes "pull_one L now (d, c, st) kn = (d', c', st')"
  shows "labels_table d' = labels_table d \<and> sync_log d' = sync_log d \<and> settings d' = settings d"
  using assms
  by (auto simp: pull_one_def Let_def save_note_rest split: option.splits if_splits prod.splits)

lemma distinct_map_eq:
  "distinct (map f xs) \<Longrightarrow> x \<in> set xs \<Longrightarrow> y \<in> set xs \<Longrightarrow> f x = f y \<Longrightarrow> x = y"
  by (meson distinct_map inj_onD)

lemma filter_filter_append_other:
  assumes "\<not> P y" and "\<forall>x \<in> set xs. P x \<longrightarrow> Q x"
  shows "filter P (filter Q xs @ [y]) = filter P xs"
  using assms by (induction xs) auto

lemma pull_one_counter:
  assumes "pull_one L now (d, c, st) kn = (d', c', st')"
  shows "c \<le> c'"
  using pull_one_table [OF assms] by auto

lemma pull_one_distinct:
  assumes "pull_one L now (d, c, st) kn = (d', c', st')"
    and "distinct (map note_id (notes_table d))"
  shows "distinct (map note_id (notes_table d'))"
  using pull_one_table [OF assms(1)] assms(2)
  by (auto simp: distinct_map_filter)

lemma pull_one_other_key:
  assumes step: "pull_one L now (d, c, st) kn = (d', c', st')"
    and dist: "distinct (map note_id (notes_table d))"
    and key: "K \<noteq> Some (k_id kn)"
    and fresh: "\<forall>r \<in> set (notes_table d). keep_id r = K \<longrightarrow> note_id r \<noteq> uuid4 L c"
  shows "filter (\<lambda>r. keep_id r = K) (notes_table d') = filter (\<lambda>r. keep_id r = K) (notes_table d)"
  using pull_one_table [OF step]
proof (elim disjE exE conjE)
  assume "notes_table d' = notes_table d"
  then show ?thesis by simp
next
  fix n'
  assume t: "notes_table d' = filter (\<lambda>r. note_id r \<noteq> note_id n') (notes_table d) @ [n']"
    and k: "keep_id n' = Some (k_id kn)"
    and i: "case find (\<lambda>r. keep_id r = Some (k_id kn)) (notes_table d) of
              Some row \<Rightarrow> note_id n' = note_id row
                \<and> k_updated kn > or_datetime_min (remote_modified row)
            | None \<Rightarrow> note_id n' = uuid4 L c"
  have other: "\<forall>x \<in> set (notes_table d). keep_id x = K \<longrightarrow> note_id x \<noteq> note_id n'"
  proof (cases "find (\<lambda>r. keep_id r = Some (k_id kn)) (notes_table d)")
    case None
    then show ?thesis using i fresh by simp
  next
    case (Some row)
    then have row: "row \<in> set (notes_table d)" "keep_id row = Some (k_id kn)"
      by (auto dest: find_Some_mem)
    have "note_id n' = note_id row" using i Some by simp
    then show ?thesis
      using row key dist by (auto dest: distinct_map_eq)
  qed
  show ?thesis
    unfolding t using k key other by (intro filter_filter_append_other) auto
qed

lemma pull_loop_other_key:
  assumes "foldl (pull_one L now) (d, c, st) kns = (d', c', st')"
    and "distinct (map note_id (notes_table d))"
    and "\<forall>kn \<in> set kns. K \<noteq> Some (k_id kn)"
    and "\<forall>r \<in> set (notes_table d). keep_id r = K \<longrightarrow> (\<forall>j \<ge> c. note_id r \<noteq> uuid4 L j)"
  shows "filter (\<lambda>r. keep_id r = K) (notes_table d') = filter (\<lambda>r. keep_id r = K) (notes_table d)
         \<and> distinct (map note_id (notes_table d')) \<and> c \<le> c'"
  using assms
proof (induction kns arbitrary: d c st)
  case Nil
  then show ?case by simp
next
  case (Cons kn kns)
  obtain d1 c1 st1 where step: "pull_one L now (d, c, st) kn = (d1, c1, st1)"
    by (metis prod_cases3)
  have key: "K \<noteq> Some (k_id kn)" using Cons.prems(3) by simp
  have fresh: "\<forall>r \<in> set (notes_table d). keep_id r = K \<longrightarrow> note_id r \<noteq> uuid4 L c"
    using Cons.prems(4) by auto
  have f1: "filter (\<lambda>r. keep_id r = K) (notes_table d1) = filter (\<lambda>r. keep_id r = K) (notes_table d)"
    by (rule pull_one_other_key [OF step Cons.prems(2) key fresh])
  have d1: "distinct (map note_id (notes_table d1))"
    by (rule pull_one_distinct [OF step Cons.prems(2)])
  have c1: "c \<le> c1" by (rule pull_one_counter [OF step])
  have mem: "\<And>r. (r \<in> set (notes_table d1) \<and> keep_id r = K) = (r \<in> set (notes_table d) \<and> keep_id r = K)"
  proof -
    fix r
    have "(r \<in> set (filter (\<lambda>r. keep_id r = K) (notes_table d1)))
            = (r \<in> set (filter (\<lambda>r. keep_id r = K) (notes_table d)))"
      using f1 by simp
    then show "(r \<in> set (notes_table d1) \<and> keep_id r = K) = (r \<in> set (notes_table d) \<and> keep_id r = K)"
      by simp
  qed
  have fresh1: "\<forall>r \<in> set (notes_table d1). keep_id r = K \<longrightarrow> (\<forall>j \<ge> c1. note_id r \<noteq> uuid4 L j)"
    using Cons.prems(4) mem c1 by (meson le_trans)
  have rest: "foldl (pull_one L now) (d1, c1, st1) kns = (d', c', st')"
    using Cons.prems(1) step by simp
  have keys: "\<forall>kn \<in> set kns. K \<noteq> Some (k_id kn)" using Cons.prems(3) by simp
  from Cons.IH [OF rest d1 keys fresh1] f1 c1 show ?case by simp
qed

lemma find_as_filter: "find P xs = (case filter P xs of [] \<Rightarrow> None | x # _ \<Rightarrow> Some x)"
  by (induction xs) auto

lemma find_filter_cong: "filter P xs = filter P ys \<Longrightarrow> find P xs = find P ys"
  by (simp add: find_as_filter)

lemma mem_filter_cong:
  "filter P xs = filter P ys \<Longrightarrow> (x \<in> set xs \<and> P x) = (x \<in> set ys \<and> P x)"
proof -
  assume "filter P xs = filter P ys"
  then have "set (filter P xs) = set (filter P ys)" by simp
  then show ?thesis by auto
qed

lemma pull_loop_linked:
  assumes run: "foldl (pull_one L now) (d, c, st) kns = (d', c', st')"
    and dist: "distinct (map note_id (notes_table d))"
    and keys: "\<forall>kn' \<in> set kns. k_id kn' \<noteq> k"
    and fresh: "\<forall>r \<in> set (notes_table d). keep_id r = Some k \<longrightarrow> (\<forall>j \<ge> c. note_id r \<noteq> uuid4 L j)"
  shows "find (\<lambda>r. keep_id r = Some k) (notes_table d') = find (\<lambda>r. keep_id r = Some k) (notes_table d)"
    and "distinct (map note_id (notes_table d'))" and "c \<le> c'"
    and "\<forall>r \<in> set (notes_table d'). keep_id r = Some k \<longrightarrow> (\<forall>j \<ge> c'. note_id r \<noteq> uuid4 L j)"
proof -
  have k: "\<forall>kn \<in> set kns. Some k \<noteq> Some (k_id kn)" using keys by auto
  note main = pull_loop_other_key [OF run dist k fresh]
  show "find (\<lambda>r. keep_id r = Some k) (notes_table d') = find (\<lambda>r. keep_id r = Some k) (notes_table d)"
    using main by (intro find_filter_cong) simp
  show "distinct (map note_id (notes_table d'))" and c: "c \<le> c'" using main by simp_all
  have "\<And>r. (r \<in> set (notes_table d') \<and> keep_id r = Some k)
             = (r \<in> set (notes_table d) \<and> keep_id r = Some k)"
    using main by (intro mem_filter_cong) simp
  then show "\<forall>r \<in> set (notes_table d'). keep_id r = Some k \<longrightarrow> (\<forall>j \<ge> c'. note_id r \<noteq> uuid4 L j)"
    using fresh c by (meson le_trans)
qed

section \<open>The pull phase: equal and newer remote timestamps\<close>

text \<open>
  C7. Let the table have distinct primary keys and the fetched notes distinct ids, and let
  no uuid still to be drawn be the id of a row linked to the fetched note \<open>kn\<close>. If
  \<open>kn\<close>'s updated timestamp is not strictly greater than the \<open>remote_modified\<close> of the row
  the pull finds for \<open>kn\<close> (\<open>datetime.min\<close> when the row has none), and in particular if the
  two are equal, the loop body for \<open>kn\<close> leaves the store as it is and counts the note as
  skipped; reading the row has drawn one uuid per checklist item of the row and nothing else
  has. After the whole loop the row found for \<open>kn\<close> is that same row, field for field. So a
  linked row is overwritten only when the remote timestamp is strictly greater.
\<close>

theorem pull_equal_timestamp_keeps_local:
  assumes dist: "distinct (map note_id (notes_table d))"
    and ids: "distinct (map k_id kns)"
    and kn: "kn \<in> set kns"
    and row: "find (\<lambda>r. keep_id r = Some (k_id kn)) (notes_table d) = Some row"
    and notnewer: "\<not> k_updated kn > or_datetime_min (remote_modified row)"
    and fresh: "\<forall>r \<in> set (notes_table d). keep_id r = Some (k_id kn)
                  \<longrightarrow> (\<forall>j \<ge> c. note_id r \<noteq> uuid4 L j)"
  shows "pull_one L now (d, c, st) kn
           = (d, c + length (checklist_items row), st\<lparr>pull_skipped := pull_skipped st + 1\<rparr>)
       \<and> find (\<lambda>r. keep_id r = Some (k_id kn)) (notes_table (fst (pull_notes L now (d, c) kns)))
           = Some row"
proof
  note nn = notnewer
  show "pull_one L now (d, c, st) kn
          = (d, c + length (checklist_items row), st\<lparr>pull_skipped := pull_skipped st + 1\<rparr>)"
    by (rule pull_one_skip [OF row nn])
  obtain pre post where split: "kns = pre @ kn # post"
    using kn by (meson split_list)
  have kpre: "\<forall>kn' \<in> set pre. k_id kn' \<noteq> k_id kn" and kpost: "\<forall>kn' \<in> set post. k_id kn' \<noteq> k_id kn"
    using ids unfolding split by (auto simp: image_iff)
  let ?st0 = "\<lparr>pull_new = 0, pull_updated = 0, pull_skipped = 0\<rparr>"
  obtain d1 c1 st1 where pre: "foldl (pull_one L now) (d, c, ?st0) pre = (d1, c1, st1)"
    by (metis prod_cases3)
  note p1 = pull_loop_linked [OF pre dist kpre fresh]
  have row1: "find (\<lambda>r. keep_id r = Some (k_id kn)) (notes_table d1) = Some row"
    using p1(1) row by simp
  let ?c1 = "c1 + length (checklist_items row)"
  have at: "pull_one L now (d1, c1, st1) kn = (d1, ?c1, st1\<lparr>pull_skipped := pull_skipped st1 + 1\<rparr>)"
    by (rule pull_one_skip [OF row1 nn])
  obtain d2 c2 st2 where post:
    "foldl (pull_one L now) (d1, ?c1, st1\<lparr>pull_skipped := pull_skipped st1 + 1\<rparr>) post = (d2, c2, st2)"
    by (metis prod_cases3)
  have fresh1: "\<forall>r \<in> set (notes_table d1). keep_id r = Some (k_id kn)
                  \<longrightarrow> (\<forall>j \<ge> ?c1. note_id r \<noteq> uuid4 L j)"
    using p1(4) by (meson le_add1 le_trans)
  note p2 = pull_loop_linked [OF post p1(2) kpost fresh1]
  have "pull_notes L now (d, c) kns = (d2, c2, st2)"
    unfolding pull_notes_def split using pre at post by simp
  then show "find (\<lambda>r. keep_id r = Some (k_id kn)) (notes_table (fst (pull_notes L now (d, c) kns)))
           = Some row"
    using p2(1) row1 by simp
qed

theorem pull_equal_timestamp_keeps_local_witness:
  "remote_modified (ex_list ''a'' ''Trip'' (Some ''rk2'') PENDING_PUSH (Some 35) (Some 30))
     = Some (k_updated (ex_remote ''rk2'' ''Paris'' 30))
   \<and> pull_notes ex_lib 40
         (ex_db [ex_list ''a'' ''Trip'' (Some ''rk2'') PENDING_PUSH (Some 35) (Some 30)], 0)
         [ex_remote ''rk2'' ''Paris'' 30]
       = (ex_db [ex_list ''a'' ''Trip'' (Some ''rk2'') PENDING_PUSH (Some 35) (Some 30)], 2,
          \<lparr>pull_new = 0, pull_updated = 0, pull_skipped = 1\<rparr>)
   \<and> find (\<lambda>r. keep_id r = Some ''rk2'')
        (notes_table (fst (pull_notes ex_lib 40
           (ex_db [ex_list ''a'' ''Trip'' (Some ''rk2'') PENDING_PUSH (Some 35) (Some 30)], 0)
           [ex_remote ''rk2'' ''Paris'' 30])))
       = Some (ex_list ''a'' ''Trip'' (Some ''rk2'') PENDING_PUSH (Some 35) (Some 30))"
proof -
  let ?row = "ex_list ''a'' ''Trip'' (Some ''rk2'') PENDING_PUSH (Some 35) (Some 30)"
  let ?kn = "ex_remote ''rk2'' ''Paris'' 30"
  let ?st0 = "\<lparr>pull_new = 0, pull_updated = 0, pull_skipped = 0\<rparr>"
  have dist: "distinct (map note_id (notes_table (ex_db [?row])))"
    by (simp add: ex_db_def)
  have ids: "distinct (map k_id [?kn])" by simp
  have kn: "?kn \<in> set [?kn]" by simp
  have row: "find (\<lambda>r. keep_id r = Some (k_id ?kn)) (notes_table (ex_db [?row])) = Some ?row"
    by (simp add: ex_db_def ex_list_def ex_note_def ex_remote_def)
  have eq: "remote_modified ?row = Some (k_updated ?kn)"
    by (simp add: ex_list_def ex_note_def ex_remote_def)
  have nn: "\<not> k_updated ?kn > or_datetime_min (remote_modified ?row)"
    by (simp add: eq or_datetime_min_def)
  have fresh: "\<forall>r \<in> set (notes_table (ex_db [?row])). keep_id r = Some (k_id ?kn)
                  \<longrightarrow> (\<forall>j \<ge> 0. note_id r \<noteq> uuid4 ex_lib j)"
    by (simp add: ex_db_def ex_list_def ex_note_def ex_lib_def)
  have k: "k_id ?kn = ''rk2''" by (simp add: ex_remote_def)
  have len: "length (checklist_items ?row) = 2" by (simp add: ex_list_def)
  note main = pull_equal_timestamp_keeps_local [OF dist ids kn row nn fresh, of 40 ?st0]
  have run: "pull_notes ex_lib 40 (ex_db [?row], 0) [?kn]
               = (ex_db [?row], 2, \<lparr>pull_new = 0, pull_updated = 0, pull_skipped = 1\<rparr>)"
    using main len by (simp add: pull_notes_def)
  show ?thesis
    using eq run main k by simp
qed
lemma find_by_id_distinct:
  "distinct (map note_id xs) \<Longrightarrow> x \<in> set xs \<Longrightarrow> find (\<lambda>r. note_id r = note_id x) xs = Some x"
  by (induction xs) (auto simp: image_iff)




section \<open>The push phase: what one selected row changes\<close>

text \<open>The definitions a run of the engine on a concrete store unfolds.\<close>

lemmas ex_run_defs =
  sync_def sync_try_def pull_from_keep_def pull_notes_def pull_one_def keep_note_to_local_def
  or_datetime_min_def notify_callbacks_def set_setting_def
  push_to_keep_def push_one_def push_remote_def create_keep_note_def update_keep_note_def
  kbind_def kreturn_def
  row_to_note_def needs_push_def has_keep_id_def save_note_def log_sync_def mem_keep_def mem_create_def
  ex_engine_def ex_db_def ex_note_def ex_list_def ex_remote_def ex_gen_def ex_lib_def Let_def
  update_hash_def hash_content_def dumps_items_def str_bool_def assign_def

lemma push_remote_note:
  assumes "push_remote P now st n k = (Inr (n', st'), k')"
  shows "(has_keep_id n \<and> n' = n)
       \<or> (\<not> has_keep_id n \<and> n' = n\<lparr>keep_id := keep_id n'\<rparr> \<and> keep_id n' \<noteq> None)"
  using assms
  by (auto simp: push_remote_def kbind_def kreturn_def split: prod.splits sum.splits option.splits if_splits)

lemma push_remote_stats:
  assumes "push_remote P now st n k = (Inr (n', st'), k')"
  shows "push_errors st' = push_errors st \<and> push_deleted st' = push_deleted st
       \<and> push_created st' + push_updated st' \<le> Suc (push_created st + push_updated st)"
  using assms
  by (auto simp: push_remote_def kbind_def kreturn_def split: prod.splits sum.splits option.splits if_splits)

lemma push_one_ok:
  assumes "push_remote P now st (update_hash L row) k = (Inr (n, st'), k')"
  shows "push_one P L now (d, k, c, st) row =
     (snd (save_note L now d (n\<lparr>sync_status := SYNCED, remote_modified := Some now\<rparr>)),
      k', c + length (checklist_items row), st')"
  using assms by (simp add: push_one_def row_to_note_def)

lemma push_one_error:
  assumes "push_remote P now st (update_hash L row) k = (Inl e, k')"
  shows "push_one P L now (d, k, c, st) row =
     (log_sync now d ''push'' (note_id row) ''error'' e, k', c + length (checklist_items row),
      st\<lparr>push_errors := push_errors st + 1\<rparr>)"
  using assms by (simp add: push_one_def row_to_note_def)

lemma log_sync_table [simp]:
  "notes_table (log_sync now d a i s m) = notes_table d"
  "labels_table (log_sync now d a i s m) = labels_table d"
  "settings (log_sync now d a i s m) = settings d"
  by (simp_all add: log_sync_def)

lemma push_one_table:
  assumes "push_one P L now (d, k, c, st) row = (d', k', c', st')"
  shows "notes_table d' = notes_table d
       \<or> (\<exists>n'. notes_table d' = filter (\<lambda>r. note_id r \<noteq> note_id row) (notes_table d) @ [n']
             \<and> note_id n' = note_id row \<and> sync_status n' = SYNCED
             \<and> remote_modified n' = Some now)"
proof (cases "push_remote P now st (update_hash L row) k")
  case (Pair res k1)
  show ?thesis
  proof (cases res)
    case (Inl e)
    then show ?thesis
      using assms push_one_error [of P now st L row k e k1 d c] Pair by auto
  next
    case (Inr p)
    obtain n st1 where p: "p = (n, st1)" by (cases p)
    have pr: "push_remote P now st (update_hash L row) k = (Inr (n, st1), k1)"
      using Pair Inr p by simp
    have id: "note_id n = note_id row"
      using push_remote_note [OF pr] by auto
    have "d' = snd (save_note L now d (n\<lparr>sync_status := SYNCED, remote_modified := Some now\<rparr>))"
      using assms push_one_ok [OF pr, of d c] by simp
    then have "notes_table d' = filter (\<lambda>r. note_id r \<noteq> note_id row) (notes_table d)
        @ [update_hash L (n\<lparr>sync_status := SYNCED, remote_modified := Some now, updated_at := now\<rparr>)]"
      using id by (simp add: save_note_table)
    then show ?thesis by (intro disjI2 exI) (auto simp: id)
  qed
qed

lemma push_one_distinct:
  assumes "push_one P L now (d, k, c, st) row = (d', k', c', st')"
    and "distinct (map note_id (notes_table d))"
  shows "distinct (map note_id (notes_table d'))"
  using push_one_table [OF assms(1)] assms(2)
  by (auto simp: distinct_map_filter)

lemma push_one_other_id:
  assumes "push_one P L now (d, k, c, st) row = (d', k', c', st')"
    and "note_id row \<noteq> i"
  shows "filter (\<lambda>r. note_id r = i) (notes_table d') = filter (\<lambda>r. note_id r = i) (notes_table d)"
  using push_one_table [OF assms(1)]
proof (elim disjE exE conjE)
  assume "notes_table d' = notes_table d"
  then show ?thesis by simp
next
  fix n'
  assume t: "notes_table d' = filter (\<lambda>r. note_id r \<noteq> note_id row) (notes_table d) @ [n']"
    and i: "note_id n' = note_id row"
  show ?thesis
    unfolding t using i assms(2) by (intro filter_filter_append_other) auto
qed

lemma push_loop_other_id:
  assumes "foldl (push_one P L now) (d, k, c, st) rows = (d', k', c', st')"
    and "\<forall>row \<in> set rows. note_id row \<noteq> i"
  shows "filter (\<lambda>r. note_id r = i) (notes_table d') = filter (\<lambda>r. note_id r = i) (notes_table d)"
  using assms
proof (induction rows arbitrary: d k c st)
  case Nil
  then show ?case by simp
next
  case (Cons row rows)
  obtain d1 k1 c1 st1 where step: "push_one P L now (d, k, c, st) row = (d1, k1, c1, st1)"
    by (metis prod_cases4)
  have "filter (\<lambda>r. note_id r = i) (notes_table d1) = filter (\<lambda>r. note_id r = i) (notes_table d)"
    using push_one_other_id [OF step] Cons.prems(2) by simp
  moreover have "filter (\<lambda>r. note_id r = i) (notes_table d') = filter (\<lambda>r. note_id r = i) (notes_table d1)"
    using Cons.IH [of d1 k1 c1 st1] Cons.prems step by simp
  ultimately show ?case by simp
qed

lemma push_loop_distinct:
  assumes "foldl (push_one P L now) (d, k, c, st) rows = (d', k', c', st')"
    and "distinct (map note_id (notes_table d))"
  shows "distinct (map note_id (notes_table d'))"
  using assms
proof (induction rows arbitrary: d k c st)
  case Nil
  then show ?case by simp
next
  case (Cons row rows)
  obtain d1 k1 c1 st1 where step: "push_one P L now (d, k, c, st) row = (d1, k1, c1, st1)"
    by (metis prod_cases4)
  show ?case
    using Cons.IH [of d1 k1 c1 st1] Cons.prems step push_one_distinct [OF step] by simp
qed

lemma push_loop_counter:
  assumes "foldl (push_one P L now) (d, k, c, st) rows = (d', k', c', st')"
  shows "c' = c + sum_list (map (\<lambda>r. length (checklist_items r)) rows)"
  using assms
proof (induction rows arbitrary: d k c st)
  case Nil
  then show ?case by simp
next
  case (Cons row rows)
  obtain d1 k1 c1 st1 where step: "push_one P L now (d, k, c, st) row = (d1, k1, c1, st1)"
    by (metis prod_cases4)
  have "c1 = c + length (checklist_items row)"
    using step by (simp add: push_one_def row_to_note_def split: prod.splits sum.splits)
  then show ?case
    using Cons.IH [of d1 k1 c1 st1] Cons.prems step by simp
qed

lemma selected_ids:
  assumes "distinct (map note_id tbl)" and "filter Q tbl = pre @ row # post"
  shows "\<forall>r \<in> set pre. note_id r \<noteq> note_id row" and "\<forall>r \<in> set post. note_id r \<noteq> note_id row"
    and "row \<in> set tbl" and "Q row"
proof -
  have "distinct (map note_id (filter Q tbl))"
    using assms(1) by (simp add: distinct_map_filter)
  then have d: "distinct (map note_id (pre @ row # post))" using assms(2) by simp
  show "\<forall>r \<in> set pre. note_id r \<noteq> note_id row" and "\<forall>r \<in> set post. note_id r \<noteq> note_id row"
    using d by (auto simp: image_iff)
  have "row \<in> set (filter Q tbl)" using assms(2) by simp
  then show "row \<in> set tbl" and "Q row" by simp_all
qed

lemma push_to_keep_split:
  assumes sel: "filter needs_push (notes_table (db s)) = pre @ row # post"
    and before: "foldl (push_one P L now)
        (db s, keep s, uuid_calls s,
         \<lparr>push_created = 0, push_updated = 0, push_deleted = 0, push_errors = 0\<rparr>) pre
        = (d1, k1, c1, st1)"
    and step: "push_one P L now (d1, k1, c1, st1) row = (d2, k2, c2, st2)"
    and after: "foldl (push_one P L now) (d2, k2, c2, st2) post = (d3, k3, c3, st3)"
  shows "push_to_keep P L now s = (st3, s\<lparr>db := d3, keep := k3, uuid_calls := c3\<rparr>)"
  using assms by (simp add: push_to_keep_def)

lemma push_loop_row:
  assumes dist: "distinct (map note_id (notes_table d))"
    and sel: "filter Q (notes_table d) = pre @ row # post"
    and before: "foldl (push_one P L now) (d, k, c, st) pre = (d1, k1, c1, st1)"
    and after: "foldl (push_one P L now) (d2, k2, c2, st2) post = (d3, k3, c3, st3)"
  shows "find (\<lambda>r. note_id r = note_id row) (notes_table d1) = Some row"
    and "distinct (map note_id (notes_table d1))"
    and "find (\<lambda>r. note_id r = note_id row) (notes_table d3)
           = find (\<lambda>r. note_id r = note_id row) (notes_table d2)"
proof -
  note ids = selected_ids [OF dist sel]
  have "filter (\<lambda>r. note_id r = note_id row) (notes_table d1)
          = filter (\<lambda>r. note_id r = note_id row) (notes_table d)"
    by (rule push_loop_other_id [OF before ids(1)])
  then have "find (\<lambda>r. note_id r = note_id row) (notes_table d1)
          = find (\<lambda>r. note_id r = note_id row) (notes_table d)"
    by (rule find_filter_cong)
  then show "find (\<lambda>r. note_id r = note_id row) (notes_table d1) = Some row"
    using find_by_id_distinct [OF dist ids(3)] by simp
  show "distinct (map note_id (notes_table d1))"
    by (rule push_loop_distinct [OF before dist])
  have "filter (\<lambda>r. note_id r = note_id row) (notes_table d3)
          = filter (\<lambda>r. note_id r = note_id row) (notes_table d2)"
    by (rule push_loop_other_id [OF after ids(2)])
  then show "find (\<lambda>r. note_id r = note_id row) (notes_table d3)
           = find (\<lambda>r. note_id r = note_id row) (notes_table d2)"
    by (rule find_filter_cong)
qed

lemma push_one_errors_mono:
  assumes "push_one P L now (d, k, c, st) row = (d', k', c', st')"
  shows "push_errors st \<le> push_errors st'"
proof (cases "push_remote P now st (update_hash L row) k")
  case (Pair res k1)
  show ?thesis
  proof (cases res)
    case (Inl e)
    then show ?thesis
      using assms push_one_error [of P now st L row k e k1 d c] Pair by auto
  next
    case (Inr p)
    obtain n st1 where p: "p = (n, st1)" by (cases p)
    have pr: "push_remote P now st (update_hash L row) k = (Inr (n, st1), k1)"
      using Pair Inr p by simp
    show ?thesis
      using assms push_one_ok [OF pr, of d c] push_remote_stats [OF pr] by simp
  qed
qed

lemma push_loop_errors_mono:
  assumes "foldl (push_one P L now) (d, k, c, st) rows = (d', k', c', st')"
  shows "push_errors st \<le> push_errors st'"
  using assms
proof (induction rows arbitrary: d k c st)
  case Nil
  then show ?case by simp
next
  case (Cons row rows)
  obtain d1 k1 c1 st1 where step: "push_one P L now (d, k, c, st) row = (d1, k1, c1, st1)"
    by (metis prod_cases4)
  show ?case
    using Cons.IH [of d1 k1 c1 st1] Cons.prems step push_one_errors_mono [OF step] by simp
qed

lemma sync_success_stats:
  assumes "fst (sync P L now s) = (True, msg, Some stats)"
  shows "errors stats = 0 \<and> conflicts stats = 0"
  using assms
  by (auto simp: sync_def sync_try_def Let_def split: if_splits prod.splits sum.splits)

lemma has_keep_id_update_hash [simp]: "has_keep_id (update_hash L n) = has_keep_id n"
  by (simp add: has_keep_id_def)







section \<open>The push phase: a note whose push raises\<close>

text \<open>
  C5. Let the table have distinct primary keys, let \<open>row\<close> be a selected row, \<open>pre\<close> the
  selected rows before it and \<open>post\<close> those after it, and let the client raise \<open>e\<close> while
  \<open>row\<close> is pushed, in the state the loop has reached after \<open>pre\<close>. Then the push phase
  appends the entry \<open>(push, row's id, error, e)\<close> to the sync log, adds one to its own
  \<open>errors\<close> counter, leaves the table as it is and goes on with \<open>post\<close>; when the phase
  ends the row is in the table unchanged, status included, and the phase's counter is at
  least one. The counter does not reach the cycle: a call of \<open>sync\<close> that answers success
  reports \<open>errors = 0\<close>.
\<close>

theorem push_error_logged_not_counted:
  assumes dist: "distinct (map note_id (notes_table (db s)))"
    and sel: "filter needs_push (notes_table (db s)) = pre @ row # post"
    and before: "foldl (push_one P L now)
        (db s, keep s, uuid_calls s,
         \<lparr>push_created = 0, push_updated = 0, push_deleted = 0, push_errors = 0\<rparr>) pre
        = (d1, k1, c1, st1)"
    and err: "push_remote P now st1 (update_hash L row) k1 = (Inl e, k2)"
  shows "push_to_keep P L now s =
           (case foldl (push_one P L now)
                   (d1\<lparr>sync_log := sync_log d1 @
                        [\<lparr>log_timestamp = now, log_action = ''push'', log_note_id = note_id row,
                          log_status = ''error'', log_message = e\<rparr>]\<rparr>,
                    k2, c1 + length (checklist_items row),
                    st1\<lparr>push_errors := push_errors st1 + 1\<rparr>) post
            of (d3, k3, c3, st3) \<Rightarrow> (st3, s\<lparr>db := d3, keep := k3, uuid_calls := c3\<rparr>))
       \<and> find (\<lambda>r. note_id r = note_id row) (notes_table (db (snd (push_to_keep P L now s))))
           = Some row
       \<and> push_errors (fst (push_to_keep P L now s)) \<ge> 1
       \<and> (\<forall>msg stats. fst (sync P L now s) = (True, msg, Some stats) \<longrightarrow> errors stats = 0)"
proof -
  let ?d2 = "d1\<lparr>sync_log := sync_log d1 @
                [\<lparr>log_timestamp = now, log_action = ''push'', log_note_id = note_id row,
                  log_status = ''error'', log_message = e\<rparr>]\<rparr>"
  let ?c2 = "c1 + length (checklist_items row)"
  let ?st2 = "st1\<lparr>push_errors := push_errors st1 + 1\<rparr>"
  have step: "push_one P L now (d1, k1, c1, st1) row = (?d2, k2, ?c2, ?st2)"
    using push_one_error [OF err, of d1 c1] by (simp add: log_sync_def)
  obtain d3 k3 c3 st3 where after: "foldl (push_one P L now) (?d2, k2, ?c2, ?st2) post = (d3, k3, c3, st3)"
    by (metis prod_cases4)
  have whole: "push_to_keep P L now s = (st3, s\<lparr>db := d3, keep := k3, uuid_calls := c3\<rparr>)"
    by (rule push_to_keep_split [OF sel before step after])
  note r = push_loop_row [OF dist sel before after]
  have "find (\<lambda>r. note_id r = note_id row) (notes_table d3) = Some row"
    using r(1) r(3) by simp
  moreover have "push_errors st3 \<ge> 1"
    using push_loop_errors_mono [OF after] by simp
  ultimately show ?thesis
    using whole after sync_success_stats [of P L now s] by simp
qed


theorem push_error_logged_not_counted_witness:
  "push_errors (fst (push_to_keep (mem_keep ex_gen ex_reject) ex_lib 40 ex_two)) = 1
   \<and> fst (sync (mem_keep ex_gen ex_reject) ex_lib 40 ex_two)
       = (True, ''Sync completed successfully'',
          Some \<lparr>pulled = 0, pushed = 1, conflicts = 0, errors = 0\<rparr>)
   \<and> find (\<lambda>r. note_id r = ''a'')
         (notes_table (db (snd (push_to_keep (mem_keep ex_gen ex_reject) ex_lib 40 ex_two))))
       = Some (ex_note ''a'' ''Bad'' None LOCAL_ONLY None None)
   \<and> map sync_status (notes_table (db (snd (sync (mem_keep ex_gen ex_reject) ex_lib 40 ex_two))))
       = [LOCAL_ONLY, SYNCED]
   \<and> sync_log (db (snd (sync (mem_keep ex_gen ex_reject) ex_lib 40 ex_two)))
       = [\<lparr>log_timestamp = 40, log_action = ''push'', log_note_id = ''a'',
            log_status = ''error'', log_message = ''rejected''\<rparr>]"
proof -
  let ?P = "mem_keep ex_gen ex_reject"
  let ?a = "ex_note ''a'' ''Bad'' None LOCAL_ONLY None None"
  let ?b = "ex_note ''b'' ''Good'' None PENDING_PUSH (Some 3) None"
  let ?st0 = "\<lparr>push_created = 0, push_updated = 0, push_deleted = 0, push_errors = 0\<rparr>"
  have dist: "distinct (map note_id (notes_table (db ex_two)))"
    by (simp add: ex_two_def ex_engine_def ex_db_def ex_note_def)
  have sel: "filter needs_push (notes_table (db ex_two)) = [] @ ?a # [?b]"
    by (simp add: ex_two_def ex_engine_def ex_db_def ex_note_def needs_push_def)
  have before: "foldl (push_one ?P ex_lib 40) (db ex_two, keep ex_two, uuid_calls ex_two, ?st0) []
                  = (db ex_two, keep ex_two, uuid_calls ex_two, ?st0)"
    by simp
  have err: "push_remote ?P 40 ?st0 (update_hash ex_lib ?a) (keep ex_two)
               = (Inl ''rejected'', keep ex_two)"
    by (simp add: ex_run_defs ex_two_def ex_reject_def)
  have id: "note_id ?a = ''a''" by (simp add: ex_note_def)
  have counted: "push_errors (fst (push_to_keep ?P ex_lib 40 ex_two)) = 1"
    by (simp add: ex_run_defs ex_two_def ex_reject_def)
  have cycle: "fst (sync ?P ex_lib 40 ex_two)
       = (True, ''Sync completed successfully'',
          Some \<lparr>pulled = 0, pushed = 1, conflicts = 0, errors = 0\<rparr>)"
    by (simp add: ex_run_defs ex_two_def ex_reject_def)
  have statuses: "map sync_status (notes_table (db (snd (sync ?P ex_lib 40 ex_two))))
       = [LOCAL_ONLY, SYNCED]"
    by (simp add: ex_run_defs ex_two_def ex_reject_def)
  have logged: "sync_log (db (snd (sync ?P ex_lib 40 ex_two)))
       = [\<lparr>log_timestamp = 40, log_action = ''push'', log_note_id = ''a'',
            log_status = ''error'', log_message = ''rejected''\<rparr>]"
    by (simp add: ex_run_defs ex_two_def ex_reject_def)
  note main = push_error_logged_not_counted [OF dist sel before err]
  have kept: "find (\<lambda>r. note_id r = ''a'')
         (notes_table (db (snd (push_to_keep ?P ex_lib 40 ex_two)))) = Some ?a"
    using conjunct1 [OF conjunct2 [OF main]] unfolding id .
  show ?thesis
    by (rule conjI [OF counted conjI [OF cycle conjI [OF kept conjI [OF statuses logged]]]])
qed
section \<open>The push phase: selection, create, update\<close>




section \<open>The cycle: a synced note whose remote note is gone\<close>


lemma pull_from_keep_raises:
  assumes "keep_all P (keep s) = (Inl e, k2)"
  shows "pull_from_keep P L now s = (Inl e, s\<lparr>keep := k2\<rparr>)"
  using assms by (simp add: pull_from_keep_def)





section \<open>Two cycles in a row against the client in memory\<close>

subsection \<open>The operations of the client in memory\<close>

lemma stamped_trans:
  assumes "stamped now i k k1" and "stamped now i k1 k2"
  shows "stamped now i k k2"
proof -
  have "(n \<in> set (nodes k) \<and> k_id n \<noteq> i) \<or> (k_id n = i \<and> k_updated n = now)"
    if "n \<in> set (nodes k2)" for n
  proof -
    from that assms(2) have "(n \<in> set (nodes k1) \<and> k_id n \<noteq> i) \<or> (k_id n = i \<and> k_updated n = now)"
      unfolding stamped_def by blast
    then show ?thesis using assms(1) unfolding stamped_def by blast
  qed
  then show ?thesis
    using assms unfolding stamped_def by auto
qed

lemma stamped_same_nodes:
  "nodes k' = nodes k \<Longrightarrow> offline k' = offline k \<Longrightarrow> next_node k' = next_node k
   \<Longrightarrow> \<forall>n \<in> set (nodes k). k_id n \<noteq> i \<Longrightarrow> stamped now i k k'"
  unfolding stamped_def by auto

lemma assign_id [simp]: "k_id (assign a n) = k_id n"
  by (cases a) (simp_all add: assign_def)

lemma stamped_after_same:
  assumes "stamped now i k k1" and "nodes k2 = nodes k1" and "offline k2 = offline k1"
    and "next_node k2 = next_node k1"
  shows "stamped now i k k2"
  using assms unfolding stamped_def by auto

lemma stamped_before_same:
  assumes "nodes k1 = nodes k" and "offline k1 = offline k" and "next_node k1 = next_node k"
    and "stamped now i k1 k2"
  shows "stamped now i k k2"
  using assms unfolding stamped_def by auto

lemma mem_setattr_eq:
  "setattr (mem_keep gen rejects) now i a k
     = (Inr (), k\<lparr>nodes := map (\<lambda>n. if k_id n = i then (assign a n)\<lparr>k_updated := now\<rparr> else n)
                               (nodes k)\<rparr>)"
  by (simp add: mem_keep_def)

lemma stamped_map:
  "stamped now i k (k\<lparr>nodes := map (\<lambda>n. if k_id n = i then (f n)\<lparr>k_updated := now\<rparr> else n) (nodes k)\<rparr>)"
  if "\<And>n. k_id (f n) = k_id n"
  using that by (auto simp: stamped_def)

lemma mem_findLabel_eq:
  "findLabel (mem_keep gen rejects) name k
     = (Inr (if name \<in> set (label_names k) then Some name else None), k)"
  by (simp add: mem_keep_def)

lemma mem_createLabel_eq:
  "createLabel (mem_keep gen rejects) now name k = (Inr name, k\<lparr>label_names := label_names k @ [name]\<rparr>)"
  by (simp add: mem_keep_def)

lemma mem_add_labels:
  assumes "stamped now i k0 k"
  shows "\<exists>k'. add_labels (mem_keep gen rejects) now i ls k = (Inr (), k')
           \<and> stamped now i k0 k' \<and> next_node k' = next_node k"
  using assms
proof (induction ls arbitrary: k)
  case Nil
  then show ?case by simp
next
  case (Cons l ls)
  let ?P = "mem_keep gen rejects"
  let ?k2 = "if l \<in> set (label_names k) then k else k\<lparr>label_names := label_names k @ [l]\<rparr>"
  let ?k3 = "?k2\<lparr>nodes := map (\<lambda>n. if k_id n = i then (assign (AddLabel l) n)\<lparr>k_updated := now\<rparr> else n)
                                (nodes ?k2)\<rparr>"
  have step: "add_labels ?P now i (l # ls) k = add_labels ?P now i ls ?k3"
    by (simp add: mem_findLabel_eq mem_createLabel_eq mem_setattr_eq)
  have "stamped now i k0 ?k2"
    by (rule stamped_after_same [OF Cons.prems]) simp_all
  moreover have "stamped now i ?k2 ?k3"
    by (rule stamped_map) simp
  ultimately have s3: "stamped now i k0 ?k3" by (rule stamped_trans)
  have n3: "next_node ?k3 = next_node k" by simp
  from Cons.IH [OF s3] show ?case
    unfolding step n3 .
qed

lemma mem_create_eq:
  "mem_create gen rejects now t x items k =
     (if rejects t then (Inl ''rejected'', k)
      else (Inr \<lparr>k_id = gen (next_node k), k_title = t, k_text = x, k_items = items,
                  k_labels = [], k_pinned = False, k_archived = False, k_trashed = False,
                  k_color = None, k_updated = now, k_created = Some now\<rparr>,
            k\<lparr>nodes := nodes k @ [\<lparr>k_id = gen (next_node k), k_title = t, k_text = x, k_items = items,
                  k_labels = [], k_pinned = False, k_archived = False, k_trashed = False,
                  k_color = None, k_updated = now, k_created = Some now\<rparr>],
              next_node := Suc (next_node k)\<rparr>))"
  by (simp add: mem_create_def Let_def)


lemma stamped_create:
  assumes "k_id n0 = i" and "k_updated n0 = now" and "\<forall>n \<in> set (nodes k). k_id n \<noteq> i"
  shows "stamped now i k (k\<lparr>nodes := nodes k @ [n0], next_node := Suc (next_node k)\<rparr>)"
  using assms by (auto simp: stamped_def)

lemma mem_update_keep_note:
  "\<exists>k'. update_keep_note (mem_keep gen rejects) now kn n k = (Inr (), k')
         \<and> stamped now (k_id kn) k k' \<and> next_node k' = next_node k"
proof -
  let ?i = "k_id kn"
  let ?set = "\<lambda>a k. k\<lparr>nodes := map (\<lambda>n. if k_id n = ?i then (assign a n)\<lparr>k_updated := now\<rparr> else n) (nodes k)\<rparr>"
  let ?k1 = "?set (Title (title n)) k"
  let ?k2 = "?set (Text (if note_type n = CHECKLIST then [] else content n)) ?k1"
  let ?k3 = "?set (Pinned (pinned n)) ?k2"
  let ?k4 = "?set (Archived (archived n)) ?k3"
  have run: "update_keep_note (mem_keep gen rejects) now kn n k = (Inr (), ?k4)"
    by (simp add: update_keep_note_def kbind_def mem_setattr_eq)
  have "stamped now ?i k ?k1" by (rule stamped_map) simp
  moreover have "stamped now ?i ?k1 ?k2" by (rule stamped_map) simp
  moreover have "stamped now ?i ?k2 ?k3" by (rule stamped_map) simp
  moreover have "stamped now ?i ?k3 ?k4" by (rule stamped_map) simp
  ultimately have "stamped now ?i k ?k4" by (meson stamped_trans)
  moreover have "next_node ?k4 = next_node k" by simp
  ultimately show ?thesis using run by blast
qed

lemma mem_create_keep_note_rejected:
  "rejects (title n) \<Longrightarrow> create_keep_note (mem_keep gen rejects) now n k = (Inl ''rejected'', k)"
  by (simp add: create_keep_note_def kbind_def mem_keep_def mem_create_eq)

lemma mem_create_keep_note:
  assumes ok: "\<not> rejects (title n)" and fresh: "\<forall>x \<in> set (nodes k). k_id x \<noteq> gen (next_node k)"
  shows "\<exists>kn k'. create_keep_note (mem_keep gen rejects) now n k = (Inr kn, k')
           \<and> k_id kn = gen (next_node k) \<and> stamped now (gen (next_node k)) k k'
           \<and> next_node k' = Suc (next_node k)"
proof -
  let ?P = "mem_keep gen rejects"
  let ?i = "gen (next_node k)"
  let ?n0 = "\<lparr>k_id = ?i, k_title = title n,
              k_text = (if note_type n = CHECKLIST then [] else content n),
              k_items = (if note_type n = CHECKLIST
                         then map (\<lambda>i. (ci_text i, ci_checked i)) (checklist_items n) else []),
              k_labels = [], k_pinned = False, k_archived = False, k_trashed = False,
              k_color = None, k_updated = now, k_created = Some now\<rparr>"
  let ?k1 = "k\<lparr>nodes := nodes k @ [?n0], next_node := Suc (next_node k)\<rparr>"
  let ?set = "\<lambda>a k. k\<lparr>nodes := map (\<lambda>n. if k_id n = ?i then (assign a n)\<lparr>k_updated := now\<rparr> else n) (nodes k)\<rparr>"
  let ?k2 = "?set (Pinned (pinned n)) ?k1"
  let ?k3 = "?set (Archived (archived n)) ?k2"
  have s1: "stamped now ?i k ?k1"
    by (rule stamped_create [OF _ _ fresh]) simp_all
  have "stamped now ?i ?k1 ?k2" by (rule stamped_map) simp
  moreover have "stamped now ?i ?k2 ?k3" by (rule stamped_map) simp
  ultimately have s3: "stamped now ?i k ?k3" using s1 by (meson stamped_trans)
  obtain k' where lab: "add_labels ?P now ?i (labels n) ?k3 = (Inr (), k')"
    and s4: "stamped now ?i k k'" and n4: "next_node k' = next_node ?k3"
    using mem_add_labels [OF s3, of gen rejects "labels n"] by blast
  have made: "(if note_type n = CHECKLIST
         then createList ?P now (title n) (map (\<lambda>i. (ci_text i, ci_checked i)) (checklist_items n))
         else createNote ?P now (title n) (content n)) k = (Inr ?n0, ?k1)"
    using ok by (simp add: mem_keep_def mem_create_eq)
  have run: "create_keep_note ?P now n k = (Inr ?n0, k')"
    by (simp only: create_keep_note_def kbind_def made mem_setattr_eq lab kreturn_def
        prod.case sum.case keep_note.select_convs)
  show ?thesis
    using run s4 n4 by auto
qed

lemma mem_keep_get_eq:
  "keep_get (mem_keep gen rejects) i k = (Inr (find (\<lambda>n. k_id n = i) (nodes k)), k)"
  by (simp add: mem_keep_def)

lemma keep_id_same [simp]: "keep_id n = Some i \<Longrightarrow> n\<lparr>keep_id := Some i\<rparr> = n"
  by (cases n) simp

lemma mem_push_remote:
  assumes fresh: "\<forall>x \<in> set (nodes k). k_id x \<noteq> gen (next_node k)"
  shows "(rejected rejects n \<and> push_remote (mem_keep gen rejects) now st n k = (Inl ''rejected'', k))
       \<or> (\<exists>i st' k'. push_remote (mem_keep gen rejects) now st n k
                        = (Inr (n\<lparr>keep_id := Some i\<rparr>, st'), k')
            \<and> stamped now i k k'
            \<and> (if has_keep_id n then keep_id n = Some i \<and> next_node k' = next_node k
                else i = gen (next_node k) \<and> next_node k' = Suc (next_node k))
            \<and> push_errors st' = push_errors st)"
proof (cases "has_keep_id n")
  case False
  show ?thesis
  proof (cases "rejects (title n)")
    case True
    then show ?thesis
      using False mem_create_keep_note_rejected [of rejects n gen now k]
      by (simp add: rejected_def push_remote_def kbind_def)
  next
    case ok: False
    obtain kn k' where c: "create_keep_note (mem_keep gen rejects) now n k = (Inr kn, k')"
      and i: "k_id kn = gen (next_node k)" and s: "stamped now (gen (next_node k)) k k'"
      and m: "next_node k' = Suc (next_node k)"
      using mem_create_keep_note [of rejects n k gen now] ok fresh by blast
    have "push_remote (mem_keep gen rejects) now st n k
            = (Inr (n\<lparr>keep_id := Some (gen (next_node k))\<rparr>, st\<lparr>push_created := push_created st + 1\<rparr>), k')"
      using False c i by (simp add: push_remote_def kbind_def kreturn_def)
    then show ?thesis
      using False s m
      by (intro disjI2 exI [of _ "gen (next_node k)"]
            exI [of _ "st\<lparr>push_created := push_created st + 1\<rparr>"] exI [of _ k']) simp
  qed
next
  case True
  then obtain i where ki: "keep_id n = Some i" and ne: "i \<noteq> []"
    by (auto simp: has_keep_id_def split: option.splits)
  show ?thesis
  proof (cases "find (\<lambda>x. k_id x = i) (nodes k)")
    case None
    then have "\<forall>x \<in> set (nodes k). k_id x \<noteq> i" by (simp add: find_None_iff)
    then have s: "stamped now i k k" by (intro stamped_same_nodes) simp_all
    have "push_remote (mem_keep gen rejects) now st n k = (Inr (n\<lparr>keep_id := Some i\<rparr>, st), k)"
      using True ki None by (simp add: push_remote_def kbind_def kreturn_def mem_keep_get_eq)
    then show ?thesis
      using True ki s
      by (intro disjI2 exI [of _ i] exI [of _ st] exI [of _ k]) simp
  next
    case (Some kn)
    then have i: "k_id kn = i" by (auto dest: find_Some_mem)
    obtain k' where u: "update_keep_note (mem_keep gen rejects) now kn n k = (Inr (), k')"
      and s: "stamped now (k_id kn) k k'" and m: "next_node k' = next_node k"
      using mem_update_keep_note [of gen rejects now kn n k] by blast
    have "push_remote (mem_keep gen rejects) now st n k
            = (Inr (n\<lparr>keep_id := Some i\<rparr>, st\<lparr>push_updated := push_updated st + 1\<rparr>), k')"
      using True ki Some u by (simp add: push_remote_def kbind_def kreturn_def mem_keep_get_eq)
    then show ?thesis
      using True ki s m i
      by (intro disjI2 exI [of _ i] exI [of _ "st\<lparr>push_updated := push_updated st + 1\<rparr>"]
            exI [of _ k']) simp
  qed
qed

subsection \<open>The pull loop keeps the store well formed\<close>

lemma pull_one_new_counter:
  assumes "find (\<lambda>r. keep_id r = Some (k_id kn)) (notes_table d) = None"
    and "pull_one L now (d, c, st) kn = (d', c', st')"
  shows "Suc c \<le> c'"
  using assms pull_one_new [OF assms(1), of L now c st]
  by (simp add: keep_note_to_local_def Let_def)

lemma set_replace_row:
  assumes "distinct (map note_id T)" and "row \<in> set T" and "note_id n' = note_id row"
  shows "set (filter (\<lambda>r. note_id r \<noteq> note_id n') T @ [n']) = insert n' (set T - {row})"
  using assms by (auto dest: distinct_map_eq)

lemma pull_step_inv:
  assumes inv: "pull_inv L gen k (notes_table d) c seen"
    and step: "pull_one L now (d, c, st) kn = (d', c', st')"
    and new: "\<forall>kn' \<in> set seen. k_id kn' \<noteq> k_id kn"
    and node: "kn \<in> set (nodes k)"
  shows "pull_inv L gen k (notes_table d') c' (seen @ [kn])"
proof -
  let ?T = "notes_table d" and ?T' = "notes_table d'"
  let ?K = "Some (k_id kn)"
  have dist: "distinct (map note_id ?T)" and uniq: "unique_links ?T"
    and uf: "uuid_fresh L ?T c" and gf: "gen_fresh gen ?T k"
    and cov: "\<forall>kn' \<in> set seen. covered ?T kn'"
    using inv by (simp_all add: pull_inv_def)
  have inj: "\<forall>i \<ge> c. \<forall>j > i. uuid4 L i \<noteq> uuid4 L j"
    and fresh: "\<forall>r \<in> set ?T. \<forall>j \<ge> c. note_id r \<noteq> uuid4 L j"
    using uf by (simp_all add: uuid_fresh_def)
  have cc: "c \<le> c'" by (rule pull_one_counter [OF step])
  have dist': "distinct (map note_id ?T')" by (rule pull_one_distinct [OF step dist])
  from pull_one_table [OF step]
  show ?thesis
  proof (elim disjE exE conjE)
    fix row
    assume same: "?T' = ?T"
      and f: "find (\<lambda>r. keep_id r = ?K) ?T = Some row"
      and nn: "\<not> or_datetime_min (remote_modified row) < k_updated kn"
    have "row \<in> set ?T \<and> keep_id row = ?K" using f by (auto dest: find_Some_mem)
    then have "covered ?T kn" using nn by (auto simp: covered_def)
    moreover have "uuid_fresh L ?T c'"
      using uf cc unfolding uuid_fresh_def by (meson le_trans)
    ultimately show ?thesis
      using same dist uniq gf cov by (simp add: pull_inv_def)
  next
    fix n'
    assume t: "?T' = filter (\<lambda>r. note_id r \<noteq> note_id n') ?T @ [n']"
      and kid: "keep_id n' = ?K" and rm: "remote_modified n' = Some (k_updated kn)"
      and idc: "case find (\<lambda>r. keep_id r = ?K) ?T of
                  None \<Rightarrow> note_id n' = uuid4 L c
                | Some row \<Rightarrow> note_id n' = note_id row \<and> or_datetime_min (remote_modified row) < k_updated kn"
    have old: "r \<in> set ?T \<and> note_id r \<noteq> note_id n'" if "r \<in> set ?T'" "r \<noteq> n'" for r
      using that unfolding t by auto
    have mem: "n' \<in> set ?T'" unfolding t by simp
    \<comment> \<open>no other row of the new table is linked to the fetched note\<close>
    have alone: "note_id r = note_id n'" if "r \<in> set ?T" "keep_id r = ?K" for r
    proof (cases "find (\<lambda>r. keep_id r = ?K) ?T")
      case None
      then show ?thesis using that by (simp add: find_None_iff)
    next
      case (Some row)
      then have "row \<in> set ?T \<and> keep_id row = ?K" by (auto dest: find_Some_mem)
      then have "note_id r = note_id row"
        using uniq that unfolding unique_links_def by (metis option.distinct(1))
      then show ?thesis using idc Some by simp
    qed
    have uniq': "unique_links ?T'"
      unfolding unique_links_def
    proof (intro ballI impI)
      fix r1 r2
      assume r1: "r1 \<in> set ?T'" and r2: "r2 \<in> set ?T'" and eq: "keep_id r1 = keep_id r2"
      show "keep_id r1 = None \<or> note_id r1 = note_id r2"
      proof (cases "r1 = n'")
        case True
        show ?thesis
        proof (cases "r2 = n'")
          case True
          then show ?thesis using \<open>r1 = n'\<close> by simp
        next
          case False
          then have "r2 \<in> set ?T \<and> note_id r2 \<noteq> note_id n'" using old r2 by blast
          moreover have "keep_id r2 = ?K" using eq True kid by simp
          ultimately show ?thesis using alone by blast
        qed
      next
        case False
        then have o1: "r1 \<in> set ?T \<and> note_id r1 \<noteq> note_id n'" using old r1 by blast
        show ?thesis
        proof (cases "r2 = n'")
          case True
          then have "keep_id r1 = ?K" using eq kid by simp
          then show ?thesis using o1 alone by blast
        next
          case False
          then have "r2 \<in> set ?T" using old r2 by blast
          then show ?thesis using o1 uniq eq unfolding unique_links_def by blast
        qed
      qed
    qed
    have idfresh: "\<forall>j \<ge> c'. note_id n' \<noteq> uuid4 L j"
    proof (cases "find (\<lambda>r. keep_id r = ?K) ?T")
      case None
      then have "note_id n' = uuid4 L c" and "Suc c \<le> c'"
        using idc pull_one_new_counter [OF None step] by simp_all
      then show ?thesis using inj by (metis Suc_le_lessD le_refl less_le_trans)
    next
      case (Some row)
      then have "row \<in> set ?T" and "note_id n' = note_id row"
        using idc by (auto dest: find_Some_mem)
      then show ?thesis using fresh cc by (metis le_trans)
    qed
    have uf': "uuid_fresh L ?T' c'"
      unfolding uuid_fresh_def
    proof (intro conjI ballI allI impI)
      fix i j assume "c' \<le> i" "i < j"
      then show "uuid4 L i \<noteq> uuid4 L j" using inj cc by (meson le_trans)
    next
      fix r j assume r: "r \<in> set ?T'" and j: "c' \<le> j"
      show "note_id r \<noteq> uuid4 L j"
      proof (cases "r = n'")
        case True
        then show ?thesis using idfresh j by simp
      next
        case False
        then have "r \<in> set ?T" using old r by blast
        then show ?thesis using fresh cc j by (meson le_trans)
      qed
    qed
    have gf': "gen_fresh gen ?T' k"
      unfolding gen_fresh_def
    proof (intro conjI allI impI ballI)
      fix i j assume "next_node k \<le> i" "i < j"
      then show "gen i \<noteq> gen j" using gf unfolding gen_fresh_def by blast
    next
      fix j assume "next_node k \<le> j"
      then show "gen j \<noteq> []" using gf unfolding gen_fresh_def by blast
    next
      fix j n assume "next_node k \<le> j" "n \<in> set (nodes k)"
      then show "k_id n \<noteq> gen j" using gf unfolding gen_fresh_def by blast
    next
      fix j r assume j: "next_node k \<le> j" and r: "r \<in> set ?T'"
      show "keep_id r \<noteq> Some (gen j)"
      proof (cases "r = n'")
        case True
        have "k_id kn \<noteq> gen j" using gf j node unfolding gen_fresh_def by blast
        then show ?thesis using True kid by simp
      next
        case False
        then have "r \<in> set ?T" using old r by blast
        then show ?thesis using gf j unfolding gen_fresh_def by blast
      qed
    qed
    have cov': "\<forall>kn' \<in> set (seen @ [kn]). covered ?T' kn'"
    proof
      fix kn' assume "kn' \<in> set (seen @ [kn])"
      then consider "kn' = kn" | "kn' \<in> set seen" by auto
      then show "covered ?T' kn'"
      proof cases
        case 1
        then show ?thesis
          using mem kid rm unfolding covered_def by (auto simp: or_datetime_min_def)
      next
        case 2
        then obtain r where r: "r \<in> set ?T" "keep_id r = Some (k_id kn')"
          "k_updated kn' \<le> or_datetime_min (remote_modified r)"
          using cov unfolding covered_def by blast
        have "k_id kn' \<noteq> k_id kn" using new 2 by blast
        then have "keep_id r \<noteq> ?K" using r(2) by simp
        have "note_id r \<noteq> note_id n'"
        proof (cases "find (\<lambda>r. keep_id r = ?K) ?T")
          case None
          then have "note_id n' = uuid4 L c" using idc by simp
          then show ?thesis using fresh r(1) by (metis le_refl)
        next
          case (Some row)
          then have row: "row \<in> set ?T" "keep_id row = ?K" "note_id n' = note_id row"
            using idc by (auto dest: find_Some_mem)
          show ?thesis
          proof
            assume "note_id r = note_id n'"
            then have "r = row" using row dist r(1) by (auto dest: distinct_map_eq)
            then show False using \<open>keep_id r \<noteq> ?K\<close> row(2) by simp
          qed
        qed
        then have "r \<in> set ?T'" using r(1) unfolding t by simp
        then show ?thesis using r unfolding covered_def by blast
      qed
    qed
    show ?thesis
      unfolding pull_inv_def using dist' uniq' uf' gf' cov' by blast
  qed
qed

end
